theory Spec2Isabelle
  imports Main "HOL-Library.Word"
begin

unbundle bit_operations_syntax

section \<open>SPI-mode SD card driver: data model\<close>

text \<open>
  The driver is \<^verbatim>\<open>sd_spi.c\<close> with its header \<^verbatim>\<open>sd_spi.h\<close>. The model follows the build
  with \<^verbatim>\<open>USE_FREERTOS\<close> defined (the mutex and the two DMA semaphores are fields of the
  handle). Pointers are 32-bit addresses, \<open>0\<close> being \<^verbatim>\<open>NULL\<close>; a pointer to the handle
  itself is an \<open>option\<close>, \<open>None\<close> being \<^verbatim>\<open>NULL\<close>.
\<close>

type_synonym ptr = "32 word"

definition NULL :: ptr where
  "NULL = 0"

datatype SD_Status =
    SD_OK | SD_ERROR | SD_TIMEOUT | SD_BUSY | SD_PARAM
  | SD_NO_MEDIA | SD_CRC_ERROR | SD_WRITE_ERROR | SD_UNSUPPORTED

datatype HAL_StatusTypeDef = HAL_OK | HAL_ERROR | HAL_BUSY | HAL_TIMEOUT

datatype GPIO_PinState = GPIO_PIN_RESET | GPIO_PIN_SET

record SD_Stats =
  read_ops :: "32 word"
  write_ops :: "32 word"
  read_blocks :: "32 word"
  write_blocks :: "32 word"
  init_attempts :: "32 word"
  error_count :: "32 word"
  timeout_count :: "32 word"

record SD_Handle_t =
  hspi :: ptr
  cs_port :: ptr
  cs_pin :: "16 word"
  cd_port :: ptr
  cd_pin :: "16 word"
  cd_active_low :: bool
  has_cd :: bool
  initialized :: bool
  is_sdhc :: bool
  use_dma :: bool
  dma_tx_done :: bool
  dma_rx_done :: bool
  mutex :: ptr
  dma_tx_sem :: ptr
  dma_rx_sem :: ptr
  last_status :: SD_Status
  capacity_blocks :: "32 word"
  block_size :: "32 word"
  stats :: SD_Stats

subsection \<open>Configuration constants of \<^verbatim>\<open>sd_spi.h\<close> and \<^verbatim>\<open>sd_spi.c\<close>\<close>

definition SD_BLOCK_SIZE :: "32 word" where "SD_BLOCK_SIZE = 512"
definition SD_SPI_IO_TIMEOUT_MS :: nat where "SD_SPI_IO_TIMEOUT_MS = 50"
definition SD_CMD_TIMEOUT_MS :: nat where "SD_CMD_TIMEOUT_MS = 100"
definition SD_DATA_TOKEN_TIMEOUT_MS :: nat where "SD_DATA_TOKEN_TIMEOUT_MS = 200"
definition SD_WRITE_BUSY_TIMEOUT_MS :: nat where "SD_WRITE_BUSY_TIMEOUT_MS = 500"
definition SD_INIT_TIMEOUT_MS :: nat where "SD_INIT_TIMEOUT_MS = 1000"
definition SD_MAX_RETRIES :: nat where "SD_MAX_RETRIES = 2"

definition CMD0 :: "8 word" where "CMD0 = 0"
definition CMD8 :: "8 word" where "CMD8 = 8"
definition SD_CMD9 :: "8 word" where "SD_CMD9 = 9"
definition SD_CMD12 :: "8 word" where "SD_CMD12 = 12"
definition SD_CMD16 :: "8 word" where "SD_CMD16 = 16"
definition CMD17 :: "8 word" where "CMD17 = 17"
definition SD_CMD18 :: "8 word" where "SD_CMD18 = 18"
definition CMD24 :: "8 word" where "CMD24 = 24"
definition SD_CMD25 :: "8 word" where "SD_CMD25 = 25"
definition CMD55 :: "8 word" where "CMD55 = 55"
definition CMD58 :: "8 word" where "CMD58 = 58"
definition ACMD41 :: "8 word" where "ACMD41 = 41"

definition SD_TOKEN_START_BLOCK :: "8 word" where "SD_TOKEN_START_BLOCK = 0xFE"
definition SD_TOKEN_START_MULTI_WRITE :: "8 word" where "SD_TOKEN_START_MULTI_WRITE = 0xFC"
definition SD_TOKEN_STOP_TRAN :: "8 word" where "SD_TOKEN_STOP_TRAN = 0xFD"
definition SD_DATA_RESP_MASK :: "8 word" where "SD_DATA_RESP_MASK = 0x1F"
definition SD_DATA_RESP_ACCEPTED :: "8 word" where "SD_DATA_RESP_ACCEPTED = 0x05"
definition SD_DATA_RESP_CRC_ERR :: "8 word" where "SD_DATA_RESP_CRC_ERR = 0x0B"
definition SD_DATA_RESP_WRITE_ERR :: "8 word" where "SD_DATA_RESP_WRITE_ERR = 0x0D"

subsection \<open>The environment: SPI peripheral, GPIO, tick counter, kernel objects\<close>

text \<open>
  The HAL and the RTOS are not part of the driver. What they return is read from a
  \<open>world\<close>: the \<open>n\<close>-th call of an SPI transfer function gets \<open>spi w n\<close> (the HAL status, the
  bytes clocked in, and for a DMA transfer which completion interrupt arrives before
  \<^verbatim>\<open>SD_DMA_TIMEOUT_MS\<close>); \<open>gpio_in\<close> is the level of an input pin; \<open>tick\<close> is
  the time in milliseconds, of which \<^verbatim>\<open>HAL_GetTick()\<close> returns the low 32 bits. The only
  code that lets time pass is \<^verbatim>\<open>SD_BackoffDelay\<close> (one millisecond). What the driver does
  to the outside is appended to \<open>trace\<close>.
\<close>

datatype dma_irq = IRQ_Complete | IRQ_Error | IRQ_None

record spi_result =
  hal :: HAL_StatusTypeDef
  rx :: "8 word list"
  irq :: dma_irq

datatype event =
    CS_Write ptr "16 word" GPIO_PinState
  | SPI_TxByte "8 word"
  | SPI_TxBuf ptr nat bool
  | SPI_RxByte
  | SPI_RxLocal nat
  | SPI_RxBuf ptr nat bool
  | SPI_Abort
  | Delay_1ms
  | Command "8 word" "32 word" "8 word"
  | Mutex_Take
  | Mutex_Give

record world =
  tick :: nat
  spi :: "nat \<Rightarrow> spi_result"
  spi_pos :: nat
  gpio_in :: "ptr \<Rightarrow> 16 word \<Rightarrow> GPIO_PinState"
  in_isr :: bool
  mutex_grant :: bool
  sem_created :: "ptr \<times> ptr \<times> ptr"
  dcache_present :: bool
  trace :: "event list"

definition emit :: "event \<Rightarrow> world \<Rightarrow> world" where
  "emit e w = w\<lparr>trace := trace w @ [e]\<rparr>"

definition next_spi :: "world \<Rightarrow> spi_result \<times> world" where
  "next_spi w = (spi w (spi_pos w), w\<lparr>spi_pos := Suc (spi_pos w)\<rparr>)"

definition rx_bytes :: "nat \<Rightarrow> spi_result \<Rightarrow> 8 word list" where
  "rx_bytes n r = take n (rx r @ replicate n 0xFF)"

definition SD_DMA_ALIGNMENT :: "world \<Rightarrow> nat" where
  "SD_DMA_ALIGNMENT w = (if dcache_present w then 32 else 4)"

section \<open>Helpers of the driver\<close>

definition bump_errors :: "SD_Status \<Rightarrow> SD_Stats \<Rightarrow> SD_Stats" where
  "bump_errors status s =
     (let s1 = (if status \<noteq> SD_OK then s\<lparr>error_count := error_count s + 1\<rparr> else s)
      in if status = SD_TIMEOUT then s1\<lparr>timeout_count := timeout_count s1 + 1\<rparr> else s1)"

definition SD_RecordStatus :: "SD_Handle_t option \<Rightarrow> SD_Status \<Rightarrow> SD_Status \<times> SD_Handle_t option" where
  "SD_RecordStatus sd_handle status =
     (case sd_handle of
        None \<Rightarrow> (status, None)
      | Some h \<Rightarrow> (status, Some (h\<lparr>last_status := status, stats := bump_errors status (stats h)\<rparr>)))"

definition SD_FromHalStatus :: "HAL_StatusTypeDef \<Rightarrow> SD_Status" where
  "SD_FromHalStatus status =
     (case status of HAL_OK \<Rightarrow> SD_OK | HAL_TIMEOUT \<Rightarrow> SD_TIMEOUT | _ \<Rightarrow> SD_ERROR)"

definition SD_IsAligned :: "ptr \<Rightarrow> nat \<Rightarrow> bool" where
  "SD_IsAligned p align = (unat p mod align = 0)"

definition SD_BackoffDelay :: "world \<Rightarrow> world" where
  "SD_BackoffDelay w = emit Delay_1ms (w\<lparr>tick := tick w + 1\<rparr>)"

definition HAL_GetTick :: "world \<Rightarrow> 32 word" where
  "HAL_GetTick w = of_nat (tick w)"

definition SD_Select :: "SD_Handle_t \<Rightarrow> world \<Rightarrow> world" where
  "SD_Select h w = emit (CS_Write (cs_port h) (cs_pin h) GPIO_PIN_RESET) w"

definition SD_Deselect :: "SD_Handle_t \<Rightarrow> world \<Rightarrow> world" where
  "SD_Deselect h w = emit (CS_Write (cs_port h) (cs_pin h) GPIO_PIN_SET) w"

definition SD_Lock :: "SD_Handle_t \<Rightarrow> world \<Rightarrow> SD_Status \<times> world" where
  "SD_Lock h w =
     (if in_isr w then (SD_BUSY, w)
      else if mutex h = NULL then (SD_ERROR, w)
      else if \<not> mutex_grant w then (SD_BUSY, w)
      else (SD_OK, emit Mutex_Take w))"

definition SD_Unlock :: "SD_Handle_t \<Rightarrow> world \<Rightarrow> world" where
  "SD_Unlock h w = (if mutex h \<noteq> NULL then emit Mutex_Give w else w)"

section \<open>SPI transport\<close>

text \<open>
  A transmit buffer is either the one-byte local of \<^verbatim>\<open>SD_TransmitByte\<close> or memory of the
  caller; a receive buffer is either a local array (CSD, CRC bytes) or memory of the
  caller. The contents of the caller's memory are not modelled: the trace keeps the
  address and the length. The transmit side of an exchange is the static \<^verbatim>\<open>0xFF\<close> filler.
  The cache maintenance calls have no effect the driver can see and are left out. In the
  DMA branch the completion callback sets the \<^verbatim>\<open>done\<close> flag of the handle and gives the
  semaphore; the error callback sets both flags and gives both semaphores; with no
  interrupt the take times out and the transfer is aborted.
\<close>

datatype txsrc = TxLit "8 word" | TxMem ptr

datatype rxdst = RxLoc | RxMem ptr

definition tx_event :: "txsrc \<Rightarrow> nat \<Rightarrow> bool \<Rightarrow> event" where
  "tx_event buffer len dma = (case buffer of TxLit b \<Rightarrow> SPI_TxByte b | TxMem p \<Rightarrow> SPI_TxBuf p len dma)"

definition rx_event :: "rxdst \<Rightarrow> nat \<Rightarrow> bool \<Rightarrow> event" where
  "rx_event buffer len dma = (case buffer of RxLoc \<Rightarrow> SPI_RxLocal len | RxMem p \<Rightarrow> SPI_RxBuf p len dma)"

definition SD_SPI_Transmit ::
  "SD_Handle_t \<Rightarrow> txsrc \<Rightarrow> nat \<Rightarrow> bool \<Rightarrow> world \<Rightarrow> SD_Status \<times> SD_Handle_t \<times> world" where
  "SD_SPI_Transmit h buffer len dma w =
     (if dma then
        (if dma_tx_sem h = NULL then (SD_ERROR, h, w)
         else
           (let h1 = h\<lparr>dma_tx_done := False\<rparr>;
                (r, w1) = next_spi (emit (tx_event buffer len True) w)
            in if hal r \<noteq> HAL_OK then (SD_ERROR, h1, w1)
               else (case irq r of
                       IRQ_None \<Rightarrow> (SD_TIMEOUT, h1, emit SPI_Abort w1)
                     | IRQ_Complete \<Rightarrow> (SD_OK, h1\<lparr>dma_tx_done := True\<rparr>, w1)
                     | IRQ_Error \<Rightarrow> (SD_OK, h1\<lparr>dma_tx_done := True, dma_rx_done := True\<rparr>, w1))))
      else
        (let (r, w1) = next_spi (emit (tx_event buffer len False) w)
         in (SD_FromHalStatus (hal r), h, w1)))"

definition SD_SPI_TransmitReceive ::
  "SD_Handle_t \<Rightarrow> rxdst \<Rightarrow> nat \<Rightarrow> bool \<Rightarrow> world \<Rightarrow> SD_Status \<times> 8 word list \<times> SD_Handle_t \<times> world" where
  "SD_SPI_TransmitReceive h buffer len dma w =
     (if dma then
        (if dma_rx_sem h = NULL then (SD_ERROR, [], h, w)
         else
           (let h1 = h\<lparr>dma_rx_done := False\<rparr>;
                (r, w1) = next_spi (emit (rx_event buffer len True) w)
            in if hal r \<noteq> HAL_OK then (SD_ERROR, [], h1, w1)
               else (case irq r of
                       IRQ_None \<Rightarrow> (SD_TIMEOUT, [], h1, emit SPI_Abort w1)
                     | IRQ_Complete \<Rightarrow> (SD_OK, rx_bytes len r, h1\<lparr>dma_rx_done := True\<rparr>, w1)
                     | IRQ_Error \<Rightarrow>
                         (SD_OK, rx_bytes len r, h1\<lparr>dma_tx_done := True, dma_rx_done := True\<rparr>, w1))))
      else
        (let (r, w1) = next_spi (emit (rx_event buffer len False) w)
         in (SD_FromHalStatus (hal r), rx_bytes len r, h, w1)))"

text \<open>
  \<^verbatim>\<open>SD_TransmitByte\<close> calls \<^verbatim>\<open>SD_SPI_Transmit\<close> with \<^verbatim>\<open>use_dma = false\<close>, a branch that
  leaves the handle as it is, so only the status and the world are returned.
\<close>

definition SD_TransmitByte :: "SD_Handle_t \<Rightarrow> 8 word \<Rightarrow> world \<Rightarrow> SD_Status \<times> world" where
  "SD_TransmitByte h data w =
     (case SD_SPI_Transmit h (TxLit data) 1 False w of (st, h1, w1) \<Rightarrow> (st, w1))"

text \<open>
  A byte is stored through the \<^verbatim>\<open>data\<close> pointer only by a transfer that returns
  \<^verbatim>\<open>HAL_OK\<close>; otherwise the caller's variable keeps its value.
\<close>

definition SD_ReceiveByteTimeout ::
  "SD_Handle_t \<Rightarrow> 8 word \<Rightarrow> nat \<Rightarrow> world \<Rightarrow> SD_Status \<times> 8 word \<times> world" where
  "SD_ReceiveByteTimeout h data timeout_ms w =
     (let (r, w1) = next_spi (emit SPI_RxByte w)
      in (SD_FromHalStatus (hal r),
          (if hal r = HAL_OK then (case rx r of [] \<Rightarrow> 0xFF | b # bs \<Rightarrow> b) else data),
          w1))"

definition SD_ReceiveByte :: "SD_Handle_t \<Rightarrow> 8 word \<Rightarrow> world \<Rightarrow> SD_Status \<times> 8 word \<times> world" where
  "SD_ReceiveByte h data w = SD_ReceiveByteTimeout h data SD_SPI_IO_TIMEOUT_MS w"

definition deselect_and_clock :: "SD_Handle_t \<Rightarrow> world \<Rightarrow> world" where
  "deselect_and_clock h w = snd (SD_TransmitByte h 0xFF (SD_Deselect h w))"

lemma tick_SD_ReceiveByteTimeout:
  "SD_ReceiveByteTimeout h d t w = (st, b, w1) \<Longrightarrow> tick w1 = tick w"
  by (auto simp: SD_ReceiveByteTimeout_def next_spi_def emit_def Let_def)

section \<open>Protocol primitives\<close>

text \<open>
  \<^verbatim>\<open>SD_WaitReady\<close> and \<^verbatim>\<open>SD_WaitDataToken\<close> have the same body and differ in the byte
  they wait for; \<open>wait_loop\<close> is that body, the \<^verbatim>\<open>do ... while\<close> loop. The deadline
  \<^verbatim>\<open>HAL_GetTick() + timeout_ms\<close> and the test \<^verbatim>\<open>HAL_GetTick() < timeout\<close> are 32-bit
  unsigned, as in the source.
\<close>

lemma deadline_measure:
  fixes g timeout :: "32 word"
  assumes "g + 1 < timeout"
  shows "unat timeout - unat (g + 1) < (if g < timeout then unat timeout - unat g else 2 ^ 32)"
proof (cases "g < timeout")
  case True
  have "unat timeout < 2 ^ 32"
    using unsigned_less [of timeout, where 'a = nat] by simp
  with True have "unat g + unat (1 :: 32 word) < 2 ^ LENGTH(32)"
    by (simp add: word_less_nat_alt)
  then have "unat (g + 1) = unat g + unat (1 :: 32 word)"
    by (simp only: unat_add_lem)
  with True show ?thesis
    by (simp add: word_less_nat_alt)
next
  case False
  have "unat timeout < 2 ^ 32"
    using unsigned_less [of timeout, where 'a = nat] by simp
  with False show ?thesis
    by simp
qed

lemma deadline_step:
  fixes g timeout :: "32 word"
  shows "1 + g < timeout \<Longrightarrow> g < timeout \<Longrightarrow>
         unat timeout - unat (1 + g) < unat timeout - unat g"
    and "1 + g < timeout \<Longrightarrow> \<not> g < timeout \<Longrightarrow>
         unat timeout - unat (1 + g) < 4294967296"
  using deadline_measure [of g timeout] by (simp_all add: add.commute)

function wait_loop ::
  "8 word \<Rightarrow> SD_Handle_t \<Rightarrow> 32 word \<Rightarrow> nat \<Rightarrow> world \<Rightarrow> SD_Status \<times> world" where
  "wait_loop expected h timeout io_timeout w =
     (case SD_ReceiveByteTimeout h 0x00 io_timeout w of
        (st, resp, w1) \<Rightarrow>
          if st \<noteq> SD_OK then (SD_ERROR, w1)
          else if resp = expected then (SD_OK, w1)
          else (let w2 = SD_BackoffDelay w1
                in if HAL_GetTick w2 < timeout then wait_loop expected h timeout io_timeout w2
                   else (SD_TIMEOUT, w2)))"
  by pat_completeness auto
termination
  apply (relation "measure (\<lambda>(expected, h, timeout, io_timeout, w).
           if HAL_GetTick w < timeout then unat timeout - unat (HAL_GetTick w) else 2 ^ 32)")
   apply simp
  apply (auto simp: SD_BackoffDelay_def HAL_GetTick_def emit_def
              dest!: tick_SD_ReceiveByteTimeout [OF sym] intro: deadline_step)
  done

declare wait_loop.simps [simp del]

definition io_timeout_for :: "nat \<Rightarrow> nat" where
  "io_timeout_for timeout_ms =
     (let io = (if timeout_ms < SD_SPI_IO_TIMEOUT_MS then timeout_ms else SD_SPI_IO_TIMEOUT_MS)
      in if io = 0 then 1 else io)"

definition SD_WaitReady :: "SD_Handle_t \<Rightarrow> nat \<Rightarrow> world \<Rightarrow> SD_Status \<times> world" where
  "SD_WaitReady h timeout_ms w =
     wait_loop 0xFF h (HAL_GetTick w + of_nat timeout_ms) (io_timeout_for timeout_ms) w"

definition SD_WaitDataToken :: "SD_Handle_t \<Rightarrow> nat \<Rightarrow> world \<Rightarrow> SD_Status \<times> world" where
  "SD_WaitDataToken h timeout_ms w =
     wait_loop SD_TOKEN_START_BLOCK h (HAL_GetTick w + of_nat timeout_ms)
       (io_timeout_for timeout_ms) w"

text \<open>
  The seven \<^verbatim>\<open>if (SD_TransmitByte(...) != SD_OK) return SD_ERROR;\<close> lines of
  \<^verbatim>\<open>SD_SendCommand\<close>: bytes are sent in order and the first failure stops the sequence.
\<close>

fun transmit_seq :: "SD_Handle_t \<Rightarrow> 8 word list \<Rightarrow> world \<Rightarrow> bool \<times> world" where
  "transmit_seq h [] w = (True, w)"
| "transmit_seq h (b # bs) w =
     (case SD_TransmitByte h b w of
        (st, w1) \<Rightarrow> if st \<noteq> SD_OK then (False, w1) else transmit_seq h bs w1)"

function r1_poll ::
  "SD_Handle_t \<Rightarrow> nat \<Rightarrow> 8 word \<Rightarrow> 8 word \<Rightarrow> world \<Rightarrow> SD_Status \<times> 8 word \<times> world" where
  "r1_poll h retry resp response w =
     (if retry < 10 then
        (case SD_ReceiveByte h resp w of
           (st, resp1, w1) \<Rightarrow>
             if st \<noteq> SD_OK then (SD_ERROR, response, w1)
             else if resp1 AND 0x80 = 0 then (SD_OK, resp1, w1)
             else r1_poll h (retry + 1) resp1 response w1)
      else (SD_TIMEOUT, response, w))"
  by pat_completeness auto
termination
  by (relation "measure (\<lambda>(h, retry, resp, response, w). 10 - retry)") auto

declare r1_poll.simps [simp del]

definition command_frame :: "8 word \<Rightarrow> 32 word \<Rightarrow> 8 word \<Rightarrow> 8 word list" where
  "command_frame cmd arg crc =
     [0x40 OR cmd, ucast (drop_bit 24 arg), ucast (drop_bit 16 arg), ucast (drop_bit 8 arg),
      ucast arg, crc]"

text \<open>
  The \<^verbatim>\<open>response\<close> pointer is never null at a call site; the model passes the variable's
  value in and returns its value afterwards. Each call is recorded in the trace with
  its arguments before anything is sent.
\<close>

definition SD_SendCommand ::
  "SD_Handle_t \<Rightarrow> 8 word \<Rightarrow> 32 word \<Rightarrow> 8 word \<Rightarrow> 8 word \<Rightarrow> world \<Rightarrow> SD_Status \<times> 8 word \<times> world" where
  "SD_SendCommand h cmd arg crc response w =
     (case SD_WaitReady h SD_CMD_TIMEOUT_MS (emit (Command cmd arg crc) w) of
        (status, w1) \<Rightarrow>
          if status \<noteq> SD_OK then (status, response, w1)
          else (case transmit_seq h (0xFF # command_frame cmd arg crc) w1 of
                  (sent, w2) \<Rightarrow>
                    if \<not> sent then (SD_ERROR, response, w2)
                    else r1_poll h 0 0xFF response w2))"

subsection \<open>Monotonicity of the tick, for the deadline loops of the initialisation\<close>

lemma tick_emit [simp]: "tick (emit e w) = tick w"
  by (simp add: emit_def)

lemma tick_SD_TransmitByte: "tick (snd (SD_TransmitByte h b w)) = tick w"
  by (simp add: SD_TransmitByte_def SD_SPI_Transmit_def next_spi_def Let_def split: prod.splits)

lemma tick_deselect_and_clock [simp]: "tick (deselect_and_clock h w) = tick w"
  by (simp add: deselect_and_clock_def tick_SD_TransmitByte SD_Deselect_def)

lemma tick_wait_loop: "tick w \<le> tick (snd (wait_loop e h t io w))"
proof (induction e h t io w rule: wait_loop.induct)
  case (1 expected h timeout io_timeout w)
  obtain st resp w1 where r: "SD_ReceiveByteTimeout h 0 io_timeout w = (st, resp, w1)"
    by (cases "SD_ReceiveByteTimeout h 0 io_timeout w") auto
  have t1: "tick w1 = tick w" using r by (rule tick_SD_ReceiveByteTimeout)
  show ?case
  proof (cases "st = SD_OK \<and> resp \<noteq> expected \<and> HAL_GetTick (SD_BackoffDelay w1) < timeout")
    case True
    with "1.IH" [of st "(resp, w1)" resp w1 "SD_BackoffDelay w1"] r
    have "tick (SD_BackoffDelay w1)
        \<le> tick (snd (wait_loop expected h timeout io_timeout (SD_BackoffDelay w1)))"
      by simp
    with True r t1 show ?thesis
      by (subst wait_loop.simps) (simp add: SD_BackoffDelay_def)
  next
    case False
    with r t1 show ?thesis
      by (subst wait_loop.simps) (auto simp: SD_BackoffDelay_def Let_def)
  qed
qed

lemma tick_transmit_seq: "tick (snd (transmit_seq h bs w)) = tick w"
proof (induction bs arbitrary: w)
  case Nil
  show ?case by simp
next
  case (Cons b bs)
  show ?case
    using Cons.IH [of "snd (SD_TransmitByte h b w)"] tick_SD_TransmitByte [of h b w]
    by (auto split: prod.splits)
qed

lemma tick_r1_poll: "tick (snd (snd (r1_poll h n resp response w))) = tick w"
proof (induction h n resp response w rule: r1_poll.induct)
  case (1 h retry resp response w)
  show ?case
  proof (cases "retry < 10")
    case False
    then show ?thesis by (subst r1_poll.simps) simp
  next
    case True
    obtain st resp1 w1 where r: "SD_ReceiveByte h resp w = (st, resp1, w1)"
      by (cases "SD_ReceiveByte h resp w") auto
    then have t1: "tick w1 = tick w"
      unfolding SD_ReceiveByte_def by (rule tick_SD_ReceiveByteTimeout)
    show ?thesis
    proof (cases "st = SD_OK \<and> resp1 AND 0x80 \<noteq> 0")
      case True
      with "1.IH" [of st "(resp1, w1)" resp1 w1] \<open>retry < 10\<close> r t1
      show ?thesis by (subst r1_poll.simps) simp
    next
      case False
      with \<open>retry < 10\<close> r t1 show ?thesis by (subst r1_poll.simps) auto
    qed
  qed
qed

lemma tick_SD_SendCommand: "tick w \<le> tick (snd (snd (SD_SendCommand h cmd arg crc response w)))"
proof -
  let ?w0 = "emit (Command cmd arg crc) w"
  obtain status w1 where a: "SD_WaitReady h SD_CMD_TIMEOUT_MS ?w0 = (status, w1)"
    by (cases "SD_WaitReady h SD_CMD_TIMEOUT_MS ?w0") auto
  have le1: "tick w \<le> tick w1"
    using tick_wait_loop [of ?w0 "0xFF" h "HAL_GetTick ?w0 + of_nat SD_CMD_TIMEOUT_MS"
        "io_timeout_for SD_CMD_TIMEOUT_MS"] a
    by (simp add: SD_WaitReady_def)
  obtain sent w2 where b: "transmit_seq h (0xFF # command_frame cmd arg crc) w1 = (sent, w2)"
    by (cases "transmit_seq h (0xFF # command_frame cmd arg crc) w1") auto
  have e2: "tick w2 = tick w1"
    using tick_transmit_seq [of h "0xFF # command_frame cmd arg crc" w1] b by simp
  have e3: "tick (snd (snd (r1_poll h 0 0xFF response w2))) = tick w2"
    by (rule tick_r1_poll)
  show ?thesis
    using a b le1 e2 e3 by (simp add: SD_SendCommand_def)
qed

section \<open>Card register access\<close>

text \<open>
  \<^verbatim>\<open>SD_ReadCSD\<close> fills the caller's 16-byte array only on the path that returns
  \<^verbatim>\<open>SD_OK\<close>; the model returns the array with the status (empty on the other paths).
\<close>

definition SD_ReadCSD :: "SD_Handle_t \<Rightarrow> world \<Rightarrow> SD_Status \<times> 8 word list \<times> world" where
  "SD_ReadCSD h w =
     (case SD_SendCommand h SD_CMD9 0 0xFF 0xFF (SD_Select h w) of
        (status, response, w1) \<Rightarrow>
          if status \<noteq> SD_OK \<or> response \<noteq> 0x00 then (SD_ERROR, [], deselect_and_clock h w1)
          else (case SD_WaitDataToken h SD_DATA_TOKEN_TIMEOUT_MS w1 of
                  (status2, w2) \<Rightarrow>
                    if status2 \<noteq> SD_OK then (status2, [], deselect_and_clock h w2)
                    else (case SD_SPI_TransmitReceive h RxLoc 16 False w2 of
                            (rx_status, csd, h1, w3) \<Rightarrow>
                              if rx_status \<noteq> SD_OK then (rx_status, [], deselect_and_clock h w3)
                              else (case SD_ReceiveByte h response w3 of
                                      (s4, response4, w4) \<Rightarrow>
                                        (case SD_ReceiveByte h response4 w4 of
                                           (s5, response5, w5) \<Rightarrow>
                                             (SD_OK, csd, deselect_and_clock h w5))))))"

definition SD_ParseCSD :: "SD_Handle_t \<Rightarrow> 8 word list \<Rightarrow> SD_Handle_t" where
  "SD_ParseCSD h csd =
     (let csd_structure = drop_bit 6 (csd ! 0) AND 0x3
      in if csd_structure = 1 then
           (let c_size :: 32 word =
                  push_bit 16 (ucast (csd ! 7 AND 0x3F)) OR push_bit 8 (ucast (csd ! 8))
                    OR ucast (csd ! 9)
            in h\<lparr>capacity_blocks := (c_size + 1) * 1024\<rparr>)
         else if csd_structure = 0 then
           (let c_size :: 32 word =
                  push_bit 10 (ucast (csd ! 6 AND 0x03)) OR push_bit 2 (ucast (csd ! 7))
                    OR drop_bit 6 (ucast (csd ! 8));
                c_size_mult :: 32 word =
                  push_bit 1 (ucast (csd ! 9 AND 0x03)) OR (ucast (drop_bit 7 (csd ! 10)) AND 0x01);
                read_bl_len :: 32 word = ucast (csd ! 5 AND 0x0F);
                block_len :: 32 word = push_bit (unat read_bl_len) 1;
                mult :: 32 word = push_bit (unat (c_size_mult + 2)) 1;
                blocknr = (c_size + 1) * mult;
                capacity_bytes = blocknr * block_len
            in h\<lparr>capacity_blocks := capacity_bytes div SD_BLOCK_SIZE\<rparr>)
         else h\<lparr>capacity_blocks := 0\<rparr>)"

definition SD_SetBlockLength :: "SD_Handle_t \<Rightarrow> world \<Rightarrow> SD_Status \<times> world" where
  "SD_SetBlockLength h w =
     (case SD_SendCommand h SD_CMD16 SD_BLOCK_SIZE 0xFF 0xFF (SD_Select h w) of
        (status, response, w1) \<Rightarrow>
          (if status \<noteq> SD_OK \<or> response \<noteq> 0x00 then SD_ERROR else SD_OK,
           deselect_and_clock h w1))"

section \<open>Block transfers\<close>

definition dma_for :: "SD_Handle_t \<Rightarrow> ptr \<Rightarrow> world \<Rightarrow> bool" where
  "dma_for h buff w = (use_dma h \<and> SD_IsAligned buff (SD_DMA_ALIGNMENT w))"

definition SD_ReadSingleBlockInternal ::
  "SD_Handle_t \<Rightarrow> ptr \<Rightarrow> 32 word \<Rightarrow> world \<Rightarrow> SD_Status \<times> SD_Handle_t \<times> world" where
  "SD_ReadSingleBlockInternal h buff address w =
     (case SD_SendCommand h CMD17 address 0xFF 0xFF (SD_Select h w) of
        (status, response, w1) \<Rightarrow>
          if status \<noteq> SD_OK \<or> response \<noteq> 0x00 then (SD_ERROR, h, deselect_and_clock h w1)
          else (case SD_WaitDataToken h SD_DATA_TOKEN_TIMEOUT_MS w1 of
                  (status2, w2) \<Rightarrow>
                    if status2 \<noteq> SD_OK then (status2, h, deselect_and_clock h w2)
                    else (case SD_SPI_TransmitReceive h (RxMem buff) (unat SD_BLOCK_SIZE)
                                 (dma_for h buff w2) w2 of
                            (status3, data, h1, w3) \<Rightarrow>
                              if status3 \<noteq> SD_OK then (status3, h1, deselect_and_clock h1 w3)
                              else (case SD_SPI_TransmitReceive h1 RxLoc 2 False w3 of
                                      (s4, crc, h2, w4) \<Rightarrow>
                                        (SD_OK, h2, deselect_and_clock h2 w4)))))"

text \<open>
  The data response of a write: the test for acceptance masks the byte, the test for a
  CRC error compares the whole byte. Both write functions contain these two expressions.
\<close>

definition data_response_rejected :: "8 word \<Rightarrow> bool" where
  "data_response_rejected response = (response AND SD_DATA_RESP_MASK \<noteq> SD_DATA_RESP_ACCEPTED)"

definition data_response_error :: "8 word \<Rightarrow> SD_Status" where
  "data_response_error response =
     (if response = SD_DATA_RESP_CRC_ERR then SD_CRC_ERROR else SD_WRITE_ERROR)"

definition SD_WriteSingleBlockInternal ::
  "SD_Handle_t \<Rightarrow> ptr \<Rightarrow> 32 word \<Rightarrow> world \<Rightarrow> SD_Status \<times> SD_Handle_t \<times> world" where
  "SD_WriteSingleBlockInternal h buff address w =
     (case SD_SendCommand h CMD24 address 0xFF 0xFF (SD_Select h w) of
        (status, response, w1) \<Rightarrow>
          if status \<noteq> SD_OK \<or> response \<noteq> 0x00 then (SD_ERROR, h, deselect_and_clock h w1)
          else
            (let w2 = snd (SD_TransmitByte h SD_TOKEN_START_BLOCK w1)
             in case SD_SPI_Transmit h (TxMem buff) (unat SD_BLOCK_SIZE) (dma_for h buff w2) w2 of
                  (status3, h1, w3) \<Rightarrow>
                    if status3 \<noteq> SD_OK then (status3, h1, deselect_and_clock h1 w3)
                    else
                      (let w4 = snd (SD_TransmitByte h1 0xFF w3);
                           w5 = snd (SD_TransmitByte h1 0xFF w4)
                       in case SD_ReceiveByte h1 response w5 of
                            (s6, response6, w6) \<Rightarrow>
                              if data_response_rejected response6
                              then (data_response_error response6, h1, deselect_and_clock h1 w6)
                              else (case SD_WaitReady h1 SD_WRITE_BUSY_TIMEOUT_MS w6 of
                                      (status7, w7) \<Rightarrow>
                                        (status7, h1, deselect_and_clock h1 w7)))))"

text \<open>
  The per-block loops of the multi-block functions. The body of each \<^verbatim>\<open>for\<close> loop is a
  function of its own (\<open>read_block_step\<close>, \<open>write_block_step\<close>) that returns the value of
  \<^verbatim>\<open>status\<close> at the end of the body or at its \<^verbatim>\<open>break\<close>. \<open>i\<close> and \<open>count\<close> are the loop
  counter and its bound, \<open>buff\<close> is advanced by one block per iteration, \<open>status\<close> is the
  value of the variable when the loop is entered, \<open>response\<close> the variable the data response
  is received into.
\<close>

definition read_block_step ::
  "SD_Handle_t \<Rightarrow> ptr \<Rightarrow> bool \<Rightarrow> world \<Rightarrow> SD_Status \<times> SD_Handle_t \<times> world" where
  "read_block_step h buff dma w =
     (case SD_WaitDataToken h SD_DATA_TOKEN_TIMEOUT_MS w of
        (status1, w1) \<Rightarrow>
          if status1 \<noteq> SD_OK then (status1, h, w1)
          else (case SD_SPI_TransmitReceive h (RxMem buff) (unat SD_BLOCK_SIZE) dma w1 of
                  (status2, data, h1, w2) \<Rightarrow>
                    if status2 \<noteq> SD_OK then (status2, h1, w2)
                    else (case SD_SPI_TransmitReceive h1 RxLoc 2 False w2 of
                            (s3, crc, h2, w3) \<Rightarrow> (status2, h2, w3))))"

function read_blocks_loop ::
  "SD_Handle_t \<Rightarrow> nat \<Rightarrow> nat \<Rightarrow> ptr \<Rightarrow> bool \<Rightarrow> SD_Status \<Rightarrow> world
     \<Rightarrow> SD_Status \<times> SD_Handle_t \<times> world" where
  "read_blocks_loop h i count buff dma status w =
     (if i < count then
        (case read_block_step h buff dma w of
           (status1, h1, w1) \<Rightarrow>
             if status1 \<noteq> SD_OK then (status1, h1, w1)
             else read_blocks_loop h1 (i + 1) count (buff + SD_BLOCK_SIZE) dma status1 w1)
      else (status, h, w))"
  by pat_completeness auto
termination
  by (relation "measure (\<lambda>(h, i, count, buff, dma, status, w). count - i)") auto

declare read_blocks_loop.simps [simp del]

definition SD_ReadMultiBlocksInternal ::
  "SD_Handle_t \<Rightarrow> ptr \<Rightarrow> 32 word \<Rightarrow> 32 word \<Rightarrow> world \<Rightarrow> SD_Status \<times> SD_Handle_t \<times> world" where
  "SD_ReadMultiBlocksInternal h buff sector count w =
     (if buff = NULL \<or> count = 0 then (SD_PARAM, h, w)
      else if \<not> initialized h then (SD_ERROR, h, w)
      else
        (let address = (if is_sdhc h then sector else sector * SD_BLOCK_SIZE)
         in case SD_SendCommand h SD_CMD18 address 0xFF 0xFF (SD_Select h w) of
              (status, response, w1) \<Rightarrow>
                if status \<noteq> SD_OK \<or> response \<noteq> 0x00 then (SD_ERROR, h, deselect_and_clock h w1)
                else (case read_blocks_loop h 0 (unat count) buff (dma_for h buff w1) status w1 of
                        (status2, h2, w2) \<Rightarrow>
                          (case SD_SendCommand h2 SD_CMD12 0 0xFF response w2 of
                             (s3, response3, w3) \<Rightarrow> (status2, h2, deselect_and_clock h2 w3)))))"

definition write_block_step ::
  "SD_Handle_t \<Rightarrow> ptr \<Rightarrow> bool \<Rightarrow> 8 word \<Rightarrow> world \<Rightarrow> SD_Status \<times> 8 word \<times> SD_Handle_t \<times> world" where
  "write_block_step h buff dma response w =
     (let w1 = snd (SD_TransmitByte h SD_TOKEN_START_MULTI_WRITE w)
      in case SD_SPI_Transmit h (TxMem buff) (unat SD_BLOCK_SIZE) dma w1 of
           (status2, h1, w2) \<Rightarrow>
             if status2 \<noteq> SD_OK then (status2, response, h1, w2)
             else
               (let w3 = snd (SD_TransmitByte h1 0xFF w2);
                    w4 = snd (SD_TransmitByte h1 0xFF w3)
                in case SD_ReceiveByte h1 response w4 of
                     (s5, response5, w5) \<Rightarrow>
                       if data_response_rejected response5
                       then (data_response_error response5, response5, h1, w5)
                       else (case SD_WaitReady h1 SD_WRITE_BUSY_TIMEOUT_MS w5 of
                               (status6, w6) \<Rightarrow> (status6, response5, h1, w6))))"

function write_blocks_loop ::
  "SD_Handle_t \<Rightarrow> nat \<Rightarrow> nat \<Rightarrow> ptr \<Rightarrow> bool \<Rightarrow> SD_Status \<Rightarrow> 8 word \<Rightarrow> world
     \<Rightarrow> SD_Status \<times> SD_Handle_t \<times> world" where
  "write_blocks_loop h i count buff dma status response w =
     (if i < count then
        (case write_block_step h buff dma response w of
           (status1, response1, h1, w1) \<Rightarrow>
             if status1 \<noteq> SD_OK then (status1, h1, w1)
             else write_blocks_loop h1 (i + 1) count (buff + SD_BLOCK_SIZE) dma status1
                    response1 w1)
      else (status, h, w))"
  by pat_completeness auto
termination
  by (relation "measure (\<lambda>(h, i, count, buff, dma, status, response, w). count - i)") auto

declare write_blocks_loop.simps [simp del]

definition SD_WriteMultiBlocksInternal ::
  "SD_Handle_t \<Rightarrow> ptr \<Rightarrow> 32 word \<Rightarrow> 32 word \<Rightarrow> world \<Rightarrow> SD_Status \<times> SD_Handle_t \<times> world" where
  "SD_WriteMultiBlocksInternal h buff sector count w =
     (if buff = NULL \<or> count = 0 then (SD_PARAM, h, w)
      else if \<not> initialized h then (SD_ERROR, h, w)
      else
        (let address = (if is_sdhc h then sector else sector * SD_BLOCK_SIZE)
         in case SD_SendCommand h SD_CMD25 address 0xFF 0xFF (SD_Select h w) of
              (status, response, w1) \<Rightarrow>
                if status \<noteq> SD_OK \<or> response \<noteq> 0x00 then (SD_ERROR, h, deselect_and_clock h w1)
                else (case write_blocks_loop h 0 (unat count) buff (dma_for h buff w1) status
                             response w1 of
                        (status2, h2, w2) \<Rightarrow>
                          (let w3 = snd (SD_TransmitByte h2 SD_TOKEN_STOP_TRAN w2);
                               w4 = snd (SD_WaitReady h2 SD_WRITE_BUSY_TIMEOUT_MS w3)
                           in (status2, h2, deselect_and_clock h2 w4)))))"

text \<open>
  The retry loops of \<^verbatim>\<open>SD_ReadBlocks\<close> and \<^verbatim>\<open>SD_WriteBlocks\<close>:
  \<^verbatim>\<open>for (attempt = 0; attempt <= SD_MAX_RETRIES; attempt++)\<close>.
\<close>

function read_retry_loop ::
  "SD_Handle_t \<Rightarrow> nat \<Rightarrow> ptr \<Rightarrow> 32 word \<Rightarrow> SD_Status \<Rightarrow> world \<Rightarrow> SD_Status \<times> SD_Handle_t \<times> world" where
  "read_retry_loop h attempt buff address status w =
     (if attempt \<le> SD_MAX_RETRIES then
        (case SD_ReadSingleBlockInternal h buff address w of
           (status1, h1, w1) \<Rightarrow>
             if status1 = SD_OK then (status1, h1, w1)
             else read_retry_loop h1 (attempt + 1) buff address status1 (SD_BackoffDelay w1))
      else (status, h, w))"
  by pat_completeness auto
termination
  by (relation "measure (\<lambda>(h, attempt, buff, address, status, w). Suc SD_MAX_RETRIES - attempt)") auto

declare read_retry_loop.simps [simp del]

function write_retry_loop ::
  "SD_Handle_t \<Rightarrow> nat \<Rightarrow> ptr \<Rightarrow> 32 word \<Rightarrow> SD_Status \<Rightarrow> world \<Rightarrow> SD_Status \<times> SD_Handle_t \<times> world" where
  "write_retry_loop h attempt buff address status w =
     (if attempt \<le> SD_MAX_RETRIES then
        (case SD_WriteSingleBlockInternal h buff address w of
           (status1, h1, w1) \<Rightarrow>
             if status1 = SD_OK then (status1, h1, w1)
             else write_retry_loop h1 (attempt + 1) buff address status1 (SD_BackoffDelay w1))
      else (status, h, w))"
  by pat_completeness auto
termination
  by (relation "measure (\<lambda>(h, attempt, buff, address, status, w). Suc SD_MAX_RETRIES - attempt)") auto

declare write_retry_loop.simps [simp del]

section \<open>Public interface\<close>

definition SD_IsCardPresent :: "SD_Handle_t option \<Rightarrow> world \<Rightarrow> bool" where
  "SD_IsCardPresent sd_handle w =
     (case sd_handle of
        None \<Rightarrow> False
      | Some h \<Rightarrow>
          if \<not> has_cd h then True
          else (let state = gpio_in w (cd_port h) (cd_pin h)
                in if cd_active_low h then state = GPIO_PIN_RESET else state = GPIO_PIN_SET))"

text \<open>\<^verbatim>\<open>return SD_RecordStatus(sd_handle, status);\<close> with the world as it is at that point.\<close>

definition return_recorded ::
  "SD_Handle_t option \<Rightarrow> SD_Status \<Rightarrow> world \<Rightarrow> SD_Status \<times> SD_Handle_t option \<times> world" where
  "return_recorded sd_handle status w =
     (case SD_RecordStatus sd_handle status of (st, hp) \<Rightarrow> (st, hp, w))"

definition SD_ReadBlocks ::
  "SD_Handle_t option \<Rightarrow> ptr \<Rightarrow> 32 word \<Rightarrow> 32 word \<Rightarrow> world
     \<Rightarrow> SD_Status \<times> SD_Handle_t option \<times> world" where
  "SD_ReadBlocks sd_handle buff sector count w =
     (case sd_handle of
        None \<Rightarrow> (SD_PARAM, None, w)
      | Some h \<Rightarrow>
          if buff = NULL \<or> count = 0 then return_recorded (Some h) SD_PARAM w
          else if \<not> SD_IsCardPresent (Some h) w
          then return_recorded (Some (h\<lparr>initialized := False\<rparr>)) SD_NO_MEDIA w
          else (case SD_Lock h w of
                  (lock_status, w1) \<Rightarrow>
                    if lock_status \<noteq> SD_OK then return_recorded (Some h) lock_status w1
                    else if \<not> initialized h then return_recorded (Some h) SD_ERROR (SD_Unlock h w1)
                    else
                      (let h1 = h\<lparr>stats := (stats h)\<lparr>read_ops := read_ops (stats h) + 1,
                                      read_blocks := read_blocks (stats h) + count\<rparr>\<rparr>;
                           address = (if is_sdhc h1 then sector else sector * SD_BLOCK_SIZE)
                       in case (if count = 1 then read_retry_loop h1 0 buff address SD_OK w1
                                else SD_ReadMultiBlocksInternal h1 buff sector count w1) of
                            (status, h2, w2) \<Rightarrow>
                              return_recorded (Some h2) status (SD_Unlock h2 w2))))"

definition SD_ReadMultiBlocks ::
  "SD_Handle_t option \<Rightarrow> ptr \<Rightarrow> 32 word \<Rightarrow> 32 word \<Rightarrow> world
     \<Rightarrow> SD_Status \<times> SD_Handle_t option \<times> world" where
  "SD_ReadMultiBlocks sd_handle buff sector count w =
     (case sd_handle of
        None \<Rightarrow> (SD_PARAM, None, w)
      | Some h \<Rightarrow>
          if buff = NULL \<or> count = 0 then return_recorded (Some h) SD_PARAM w
          else if \<not> SD_IsCardPresent (Some h) w
          then return_recorded (Some (h\<lparr>initialized := False\<rparr>)) SD_NO_MEDIA w
          else (case SD_Lock h w of
                  (lock_status, w1) \<Rightarrow>
                    if lock_status \<noteq> SD_OK then return_recorded (Some h) lock_status w1
                    else
                      (let h1 = h\<lparr>stats := (stats h)\<lparr>read_ops := read_ops (stats h) + 1,
                                      read_blocks := read_blocks (stats h) + count\<rparr>\<rparr>
                       in case SD_ReadMultiBlocksInternal h1 buff sector count w1 of
                            (status, h2, w2) \<Rightarrow>
                              return_recorded (Some h2) status (SD_Unlock h2 w2))))"

definition SD_WriteBlocks ::
  "SD_Handle_t option \<Rightarrow> ptr \<Rightarrow> 32 word \<Rightarrow> 32 word \<Rightarrow> world
     \<Rightarrow> SD_Status \<times> SD_Handle_t option \<times> world" where
  "SD_WriteBlocks sd_handle buff sector count w =
     (case sd_handle of
        None \<Rightarrow> (SD_PARAM, None, w)
      | Some h \<Rightarrow>
          if buff = NULL \<or> count = 0 then return_recorded (Some h) SD_PARAM w
          else if \<not> SD_IsCardPresent (Some h) w
          then return_recorded (Some (h\<lparr>initialized := False\<rparr>)) SD_NO_MEDIA w
          else (case SD_Lock h w of
                  (lock_status, w1) \<Rightarrow>
                    if lock_status \<noteq> SD_OK then return_recorded (Some h) lock_status w1
                    else if \<not> initialized h then return_recorded (Some h) SD_ERROR (SD_Unlock h w1)
                    else
                      (let h1 = h\<lparr>stats := (stats h)\<lparr>write_ops := write_ops (stats h) + 1,
                                      write_blocks := write_blocks (stats h) + count\<rparr>\<rparr>;
                           address = (if is_sdhc h1 then sector else sector * SD_BLOCK_SIZE)
                       in case (if count = 1 then write_retry_loop h1 0 buff address SD_OK w1
                                else SD_WriteMultiBlocksInternal h1 buff sector count w1) of
                            (status, h2, w2) \<Rightarrow>
                              return_recorded (Some h2) status (SD_Unlock h2 w2))))"

definition SD_WriteMultiBlocks ::
  "SD_Handle_t option \<Rightarrow> ptr \<Rightarrow> 32 word \<Rightarrow> 32 word \<Rightarrow> world
     \<Rightarrow> SD_Status \<times> SD_Handle_t option \<times> world" where
  "SD_WriteMultiBlocks sd_handle buff sector count w =
     (case sd_handle of
        None \<Rightarrow> (SD_PARAM, None, w)
      | Some h \<Rightarrow>
          if buff = NULL \<or> count = 0 then return_recorded (Some h) SD_PARAM w
          else if \<not> SD_IsCardPresent (Some h) w
          then return_recorded (Some (h\<lparr>initialized := False\<rparr>)) SD_NO_MEDIA w
          else (case SD_Lock h w of
                  (lock_status, w1) \<Rightarrow>
                    if lock_status \<noteq> SD_OK then return_recorded (Some h) lock_status w1
                    else
                      (let h1 = h\<lparr>stats := (stats h)\<lparr>write_ops := write_ops (stats h) + 1,
                                      write_blocks := write_blocks (stats h) + count\<rparr>\<rparr>
                       in case SD_WriteMultiBlocksInternal h1 buff sector count w1 of
                            (status, h2, w2) \<Rightarrow>
                              return_recorded (Some h2) status (SD_Unlock h2 w2))))"

definition SD_IsSDHC :: "SD_Handle_t option \<Rightarrow> bool" where
  "SD_IsSDHC sd_handle = (case sd_handle of Some h \<Rightarrow> is_sdhc h | None \<Rightarrow> False)"

definition SD_IsInitialized :: "SD_Handle_t option \<Rightarrow> bool" where
  "SD_IsInitialized sd_handle = (case sd_handle of Some h \<Rightarrow> initialized h | None \<Rightarrow> False)"

definition SD_GetBlockCount :: "SD_Handle_t option \<Rightarrow> 32 word" where
  "SD_GetBlockCount sd_handle = (case sd_handle of Some h \<Rightarrow> capacity_blocks h | None \<Rightarrow> 0)"

definition SD_Sync :: "SD_Handle_t option \<Rightarrow> world \<Rightarrow> SD_Status \<times> SD_Handle_t option \<times> world" where
  "SD_Sync sd_handle w =
     (case sd_handle of
        None \<Rightarrow> (SD_PARAM, None, w)
      | Some h \<Rightarrow>
          if \<not> initialized h then return_recorded (Some h) SD_ERROR w
          else if \<not> SD_IsCardPresent (Some h) w
          then return_recorded (Some (h\<lparr>initialized := False\<rparr>)) SD_NO_MEDIA w
          else (case SD_Lock h w of
                  (lock_status, w1) \<Rightarrow>
                    if lock_status \<noteq> SD_OK then return_recorded (Some h) lock_status w1
                    else (case SD_WaitReady h SD_WRITE_BUSY_TIMEOUT_MS (SD_Select h w1) of
                            (status, w2) \<Rightarrow>
                              return_recorded (Some h) status
                                (SD_Unlock h (deselect_and_clock h w2)))))"

text \<open>
  \<^verbatim>\<open>SD_GetStats\<close> writes through \<^verbatim>\<open>stats\<close>; the second argument is what that pointer
  refers to (\<open>None\<close> for \<^verbatim>\<open>NULL\<close>) and the result is what it refers to afterwards. The handle
  is only read.
\<close>

definition SD_GetStats :: "SD_Handle_t option \<Rightarrow> SD_Stats option \<Rightarrow> SD_Stats option" where
  "SD_GetStats sd_handle out =
     (case sd_handle of
        None \<Rightarrow> out
      | Some h \<Rightarrow> (case out of None \<Rightarrow> None | Some old \<Rightarrow> Some (stats h)))"

definition zero_stats :: SD_Stats where
  "zero_stats = \<lparr>read_ops = 0, write_ops = 0, read_blocks = 0, write_blocks = 0,
                 init_attempts = 0, error_count = 0, timeout_count = 0\<rparr>"

definition SD_ResetStats :: "SD_Handle_t option \<Rightarrow> SD_Handle_t option" where
  "SD_ResetStats sd_handle =
     (case sd_handle of None \<Rightarrow> None | Some h \<Rightarrow> Some (h\<lparr>stats := zero_stats\<rparr>))"

section \<open>Construction and initialisation\<close>

text \<open>
  \<^verbatim>\<open>SD_Init\<close> clears the handle and creates the three kernel objects; \<open>sem_created\<close> is
  what the three creation calls return. The file-scope pointer to the DMA owner is used
  by the interrupt callbacks only and is not part of the model.
\<close>

definition zero_handle :: SD_Handle_t where
  "zero_handle =
     \<lparr>hspi = 0, cs_port = 0, cs_pin = 0, cd_port = 0, cd_pin = 0, cd_active_low = False,
      has_cd = False, initialized = False, is_sdhc = False, use_dma = False,
      dma_tx_done = False, dma_rx_done = False, mutex = 0, dma_tx_sem = 0, dma_rx_sem = 0,
      last_status = SD_OK, capacity_blocks = 0, block_size = 0, stats = zero_stats\<rparr>"

definition SD_Init ::
  "SD_Handle_t option \<Rightarrow> ptr \<Rightarrow> ptr \<Rightarrow> 16 word \<Rightarrow> bool \<Rightarrow> world
     \<Rightarrow> SD_Status \<times> SD_Handle_t option \<times> world" where
  "SD_Init sd_handle hspi_arg cs_port_arg cs_pin_arg use_dma_arg w =
     (case sd_handle of
        None \<Rightarrow> (SD_PARAM, None, w)
      | Some h \<Rightarrow>
          if hspi_arg = NULL \<or> cs_port_arg = NULL then (SD_PARAM, Some h, w)
          else
            (let h1 = zero_handle\<lparr>hspi := hspi_arg, cs_port := cs_port_arg, cs_pin := cs_pin_arg,
                        use_dma := use_dma_arg, initialized := False, is_sdhc := False,
                        block_size := SD_BLOCK_SIZE, last_status := SD_OK\<rparr>;
                 h2 = (case sem_created w of
                         (m, tx_sem, rx_sem) \<Rightarrow>
                           h1\<lparr>mutex := m, dma_tx_sem := tx_sem, dma_rx_sem := rx_sem\<rparr>)
             in if mutex h2 = NULL \<or> dma_tx_sem h2 = NULL \<or> dma_rx_sem h2 = NULL
                then return_recorded (Some h2) SD_ERROR w
                else (SD_OK, Some h2, w)))"

definition SD_SetCardDetect ::
  "SD_Handle_t option \<Rightarrow> ptr \<Rightarrow> 16 word \<Rightarrow> bool \<Rightarrow> SD_Status \<times> SD_Handle_t option" where
  "SD_SetCardDetect sd_handle cd_port_arg cd_pin_arg active_low =
     (case sd_handle of
        None \<Rightarrow> (SD_PARAM, None)
      | Some h \<Rightarrow>
          if cd_port_arg = NULL then (SD_PARAM, Some h)
          else (SD_OK, Some (h\<lparr>cd_port := cd_port_arg, cd_pin := cd_pin_arg,
                                cd_active_low := active_low, has_cd := True\<rparr>)))"

fun clock_dummy_bytes :: "SD_Handle_t \<Rightarrow> nat \<Rightarrow> world \<Rightarrow> world" where
  "clock_dummy_bytes h 0 w = w"
| "clock_dummy_bytes h (Suc n) w = clock_dummy_bytes h n (snd (SD_TransmitByte h 0xFF w))"

text \<open>
  \<^verbatim>\<open>for (i = 0; i < 4; i++) (void)SD_ReceiveByte(sd_handle, &buf[i]);\<close> over the indices
  given.
\<close>

fun receive_bytes :: "SD_Handle_t \<Rightarrow> nat list \<Rightarrow> 8 word list \<Rightarrow> world \<Rightarrow> 8 word list \<times> world" where
  "receive_bytes h [] buf w = (buf, w)"
| "receive_bytes h (i # is) buf w =
     (case SD_ReceiveByte h (buf ! i) w of
        (st, b, w1) \<Rightarrow> receive_bytes h is (buf[i := b]) w1)"

text \<open>
  The two \<^verbatim>\<open>do ... while (HAL_GetTick() < deadline)\<close> loops of \<^verbatim>\<open>SD_SPI_Init\<close>. Here
  the deadline is a time and is compared with the time: these two loops are modelled
  for an initialisation during which the 32-bit counter does not wrap.
\<close>

function cmd0_loop ::
  "SD_Handle_t \<Rightarrow> nat \<Rightarrow> 8 word \<Rightarrow> world \<Rightarrow> SD_Status \<times> 8 word \<times> world" where
  "cmd0_loop h deadline response w =
     (case SD_SendCommand h CMD0 0 0x95 response (SD_Select h w) of
        (status, response1, w1) \<Rightarrow>
          (let w2 = deselect_and_clock h w1
           in if status = SD_OK \<and> response1 = 0x01 then (status, response1, w2)
              else (let w3 = SD_BackoffDelay w2
                    in if tick w3 < deadline then cmd0_loop h deadline response1 w3
                       else (status, response1, w3))))"
  by pat_completeness auto
termination
proof (relation "measure (\<lambda>(h, deadline, response, w). deadline - tick w)", goal_cases)
  case 1
  show ?case by simp
next
  case (2 h deadline response w x1 x2 x3 x4 x5 x6)
  have "tick (SD_Select h w) \<le> tick (snd (snd (SD_SendCommand h CMD0 0 0x95 response (SD_Select h w))))"
    by (rule tick_SD_SendCommand)
  with 2 show ?case
    by (auto simp: SD_BackoffDelay_def HAL_GetTick_def SD_Select_def dest!: sym [of "(_, _)"])
qed

declare cmd0_loop.simps [simp del]

function acmd41_loop ::
  "SD_Handle_t \<Rightarrow> bool \<Rightarrow> nat \<Rightarrow> 8 word \<Rightarrow> world \<Rightarrow> SD_Status \<times> 8 word \<times> world" where
  "acmd41_loop h sdv2 deadline response w =
     (case SD_SendCommand h CMD55 0 0xFF response (SD_Select h w) of
        (s0, response0, w0) \<Rightarrow>
          (case SD_SendCommand h ACMD41 (if sdv2 then 0x40000000 else 0) 0xFF response0 w0 of
             (status, response1, w1) \<Rightarrow>
               (let w2 = deselect_and_clock h w1
                in if status = SD_OK \<and> response1 = 0x00 then (status, response1, w2)
                   else (let w3 = SD_BackoffDelay w2
                         in if tick w3 < deadline
                            then acmd41_loop h sdv2 deadline response1 w3
                            else (status, response1, w3)))))"
  by pat_completeness auto
termination
proof (relation "measure (\<lambda>(h, sdv2, deadline, response, w). deadline - tick w)", goal_cases)
  case 1
  show ?case by simp
next
  case (2 h sdv2 deadline response w x1 x2 x3 x4 x5 x6 x7 x8 x9 x10)
  have a: "tick (SD_Select h w) \<le> tick (snd (snd (SD_SendCommand h CMD55 0 0xFF response (SD_Select h w))))"
    by (rule tick_SD_SendCommand)
  have b: "tick w0 \<le> tick (snd (snd (SD_SendCommand h ACMD41 (if sdv2 then 0x40000000 else 0) 0xFF r0 w0)))"
    for r0 w0 by (rule tick_SD_SendCommand)
  from 2 a b [of "snd (snd (SD_SendCommand h CMD55 0 0xFF response (SD_Select h w)))"
      "fst (snd (SD_SendCommand h CMD55 0 0xFF response (SD_Select h w)))"]
  show ?case
    by (auto simp: SD_BackoffDelay_def HAL_GetTick_def SD_Select_def dest!: sym [of "(_, _)"])
qed

declare acmd41_loop.simps [simp del]

text \<open>
  The second half of \<^verbatim>\<open>SD_SPI_Init\<close>, from \<^verbatim>\<open>sd_handle->is_sdhc = false\<close> on: OCR,
  block length, CSD, completion.
\<close>

definition init_after_ready ::
  "SD_Handle_t \<Rightarrow> 8 word \<Rightarrow> world \<Rightarrow> SD_Status \<times> SD_Handle_t option \<times> world" where
  "init_after_ready h response w =
     (let h1 = h\<lparr>is_sdhc := False\<rparr>
      in case SD_SendCommand h1 CMD58 0 0xFF response (SD_Select h1 w) of
           (status, response1, w1) \<Rightarrow>
             (case (if status = SD_OK \<and> response1 = 0x00
                    then (case receive_bytes h1 [0, 1, 2, 3] [0x00, 0x00, 0x00, 0x00] w1 of
                            (ocr, w2) \<Rightarrow>
                              (if ocr ! 0 AND 0x40 \<noteq> 0 then h1\<lparr>is_sdhc := True\<rparr> else h1, w2))
                    else (h1, w1)) of
                (h2, w2) \<Rightarrow>
                  (let w3 = deselect_and_clock h2 w2
                   in case (if \<not> is_sdhc h2 then SD_SetBlockLength h2 w3 else (SD_OK, w3)) of
                        (status4, w4) \<Rightarrow>
                          if \<not> is_sdhc h2 \<and> status4 \<noteq> SD_OK
                          then return_recorded (Some h2) status4 (SD_Unlock h2 w4)
                          else (case SD_ReadCSD h2 w4 of
                                  (status5, csd, w5) \<Rightarrow>
                                    (let h3 = (if status5 = SD_OK then SD_ParseCSD h2 csd
                                               else h2\<lparr>capacity_blocks := 0\<rparr>);
                                         h4 = h3\<lparr>initialized := True\<rparr>
                                     in return_recorded (Some h4) SD_OK (SD_Unlock h4 w5))))))"

text \<open>
  \<^verbatim>\<open>SD_SPI_Init\<close>. The static filler buffer and its one-time \<^verbatim>\<open>memset\<close> are not
  modelled. \<open>response\<close>, \<open>r7\<close> and \<open>ocr\<close> are the locals of the function.
\<close>

definition SD_SPI_Init :: "SD_Handle_t option \<Rightarrow> world \<Rightarrow> SD_Status \<times> SD_Handle_t option \<times> world" where
  "SD_SPI_Init sd_handle w =
     (case sd_handle of
        None \<Rightarrow> (SD_PARAM, None, w)
      | Some h \<Rightarrow>
          if \<not> SD_IsCardPresent (Some h) w
          then return_recorded (Some (h\<lparr>initialized := False\<rparr>)) SD_NO_MEDIA w
          else
            (let h1 = h\<lparr>stats := (stats h)\<lparr>init_attempts := init_attempts (stats h) + 1\<rparr>\<rparr>
             in case SD_Lock h1 w of
                  (lock_status, w1) \<Rightarrow>
                    if lock_status \<noteq> SD_OK then return_recorded (Some h1) lock_status w1
                    else
                      (let h2 = h1\<lparr>initialized := False\<rparr>;
                           w2 = clock_dummy_bytes h2 10 (SD_Deselect h2 w1);
                           r7 = [0x00, 0x00, 0x00, 0x00]
                       in case cmd0_loop h2 (tick w2 + SD_INIT_TIMEOUT_MS) 0xFF w2 of
                            (status3, response3, w3) \<Rightarrow>
                              if response3 \<noteq> 0x01
                              then return_recorded (Some h2) SD_ERROR (SD_Unlock h2 w3)
                              else
                                (case SD_SendCommand h2 CMD8 0x000001AA 0x87 response3
                                        (SD_Select h2 w3) of
                                   (status4, response4, w4) \<Rightarrow>
                                     (case (if status4 = SD_OK
                                            then receive_bytes h2 [0, 1, 2, 3] r7 w4
                                            else (r7, w4)) of
                                        (r7a, w5) \<Rightarrow>
                                          (let w6 = deselect_and_clock h2 w5;
                                               sdv2 = (status4 = SD_OK \<and> response4 = 0x01
                                                       \<and> r7a ! 2 = 0x01 \<and> r7a ! 3 = 0xAA)
                                           in case acmd41_loop h2 sdv2
                                                     (tick w6 + SD_INIT_TIMEOUT_MS)
                                                     response4 w6 of
                                                (status7, response7, w7) \<Rightarrow>
                                                  if response7 \<noteq> 0x00
                                                  then return_recorded (Some h2) SD_TIMEOUT
                                                         (SD_Unlock h2 w7)
                                                  else init_after_ready h2 response7 w7))))))"

section \<open>Concrete handles and cards for the examples\<close>

text \<open>
  \<open>card bytes\<close> is a world whose \<open>n\<close>-th SPI transfer succeeds and clocks in
  \<open>bytes ! n\<close>, and \<^verbatim>\<open>0xFF\<close> (an idle line) once the list is used up. No card-detect
  switch is pressed (\<open>gpio_in\<close> is low), the caller is a task, the mutex is free.
  \<open>ready_handle\<close> is a handle as \<^verbatim>\<open>SD_Init\<close> and a successful \<^verbatim>\<open>SD_SPI_Init\<close> leave it for
  a byte-addressed card.
\<close>

definition idle_result :: spi_result where
  "idle_result = \<lparr>hal = HAL_OK, rx = [0xFF], irq = IRQ_Complete\<rparr>"

definition card :: "8 word list \<Rightarrow> world" where
  "card bytes =
     \<lparr>tick = 0,
      spi = (\<lambda>n. if n < length bytes then idle_result\<lparr>rx := [bytes ! n]\<rparr> else idle_result),
      spi_pos = 0,
      gpio_in = (\<lambda>port pin. GPIO_PIN_RESET),
      in_isr = False,
      mutex_grant = True,
      sem_created = (0x20000100, 0x20000200, 0x20000300),
      dcache_present = False,
      trace = []\<rparr>"

definition ready_handle :: SD_Handle_t where
  "ready_handle =
     zero_handle\<lparr>hspi := 0x40013000, cs_port := 0x40020000, cs_pin := 0x0010,
                 initialized := True, mutex := 0x20000100, dma_tx_sem := 0x20000200,
                 dma_rx_sem := 0x20000300, capacity_blocks := 0x3A0000,
                 block_size := SD_BLOCK_SIZE\<rparr>"

definition csd_sdhc :: "8 word list" where
  "csd_sdhc = [0x40, 0x0E, 0x00, 0x32, 0x5B, 0x59, 0x00, 0x00,
               0x3A, 0x9F, 0x7F, 0x80, 0x0A, 0x40, 0x00, 0x01]"

definition csd_sdsc :: "8 word list" where
  "csd_sdsc = [0x00, 0x26, 0x00, 0x32, 0x5F, 0x59, 0x83, 0xC8,
               0xAD, 0xDB, 0xCF, 0xFF, 0xD2, 0x40, 0x40, 0xA5]"

definition csd_reserved :: "8 word list" where
  "csd_reserved = [0x80, 0x0E, 0x00, 0x32, 0x5B, 0x59, 0x00, 0x00,
                   0x3A, 0x9F, 0x7F, 0x80, 0x0A, 0x40, 0x00, 0x01]"

definition csd_v2_largest :: "8 word list" where
  "csd_v2_largest = [0x40, 0x0E, 0x00, 0x32, 0x5B, 0x59, 0x00, 0x3F,
                     0xFF, 0xFF, 0x7F, 0x80, 0x0A, 0x40, 0x00, 0x01]"

definition csd_v1_4gib :: "8 word list" where
  "csd_v1_4gib = [0x00, 0x26, 0x00, 0x32, 0x5F, 0x5B, 0x83, 0xFF,
                  0xC0, 0x03, 0x80, 0xFF, 0xD2, 0x40, 0x40, 0xA5]"

section \<open>Vocabulary of the properties\<close>

text \<open>
  \<open>frame\<close> forgets the two DMA completion flags, the only fields a transfer writes.
  \<open>passes_guards\<close> collects the checks of \<^verbatim>\<open>SD_ReadBlocks\<close> and \<^verbatim>\<open>SD_WriteBlocks\<close> that come
  before the counters. \<open>counters\<close> are the four transfer counters of the statistics;
  \<open>counted_read\<close> and \<open>counted_write\<close> are the handle after the two increments;
  \<open>block_address\<close> is the address sent to the card; \<open>finish\<close> is the common tail
  \<^verbatim>\<open>SD_Unlock(sd_handle); return SD_RecordStatus(sd_handle, status);\<close>.
  \<open>status_recorded\<close> says that a result carries a handle whose \<open>last_status\<close> is the status
  returned.
\<close>

definition status_recorded :: "SD_Status \<times> SD_Handle_t option \<times> world \<Rightarrow> bool" where
  "status_recorded r = (case r of (st, Some h, w) \<Rightarrow> last_status h = st | (st, None, w) \<Rightarrow> False)"

definition frame :: "SD_Handle_t \<Rightarrow> SD_Handle_t" where
  "frame h = h\<lparr>dma_tx_done := False, dma_rx_done := False\<rparr>"

definition passes_guards :: "SD_Handle_t \<Rightarrow> ptr \<Rightarrow> 32 word \<Rightarrow> world \<Rightarrow> bool" where
  "passes_guards h buff count w =
     (buff \<noteq> NULL \<and> count \<noteq> 0 \<and> SD_IsCardPresent (Some h) w \<and> fst (SD_Lock h w) = SD_OK
      \<and> initialized h)"

definition counters :: "SD_Handle_t \<Rightarrow> 32 word \<times> 32 word \<times> 32 word \<times> 32 word" where
  "counters h = (read_ops (stats h), read_blocks (stats h), write_ops (stats h), write_blocks (stats h))"

definition counters_after :: "SD_Status \<times> SD_Handle_t option \<times> world \<Rightarrow> (32 word \<times> 32 word \<times> 32 word \<times> 32 word) option" where
  "counters_after r = map_option counters (fst (snd r))"

definition counted_read :: "SD_Handle_t \<Rightarrow> 32 word \<Rightarrow> SD_Handle_t" where
  "counted_read h count =
     h\<lparr>stats := (stats h)\<lparr>read_ops := read_ops (stats h) + 1,
                            read_blocks := read_blocks (stats h) + count\<rparr>\<rparr>"

definition counted_write :: "SD_Handle_t \<Rightarrow> 32 word \<Rightarrow> SD_Handle_t" where
  "counted_write h count =
     h\<lparr>stats := (stats h)\<lparr>write_ops := write_ops (stats h) + 1,
                            write_blocks := write_blocks (stats h) + count\<rparr>\<rparr>"

definition block_address :: "SD_Handle_t \<Rightarrow> 32 word \<Rightarrow> 32 word" where
  "block_address h sector = (if is_sdhc h then sector else sector * SD_BLOCK_SIZE)"

definition finish :: "SD_Status \<times> SD_Handle_t \<times> world \<Rightarrow> SD_Status \<times> SD_Handle_t option \<times> world" where
  "finish r = return_recorded (Some (fst (snd r))) (fst r) (SD_Unlock (fst (snd r)) (snd (snd r)))"

definition initialized_after :: "SD_Status \<times> SD_Handle_t option \<times> world \<Rightarrow> bool option" where
  "initialized_after r = map_option initialized (fst (snd r))"

definition presence_gate ::
  "bool \<Rightarrow> SD_Handle_t \<Rightarrow> world \<Rightarrow> SD_Status \<times> SD_Handle_t option \<times> world \<Rightarrow> bool" where
  "presence_gate reaches_check h w r =
     ((reaches_check \<and> \<not> SD_IsCardPresent (Some h) w \<longrightarrow>
         fst r = SD_NO_MEDIA \<and> initialized_after r = Some False \<and> snd (snd r) = w)
      \<and> (fst r \<noteq> SD_NO_MEDIA \<longrightarrow> initialized_after r = Some (initialized h)))"

definition absent_handle :: SD_Handle_t where
  "absent_handle = ready_handle\<lparr>cd_port := 0x40020400, cd_pin := 0x0004,
                                cd_active_low := False, has_cd := True\<rparr>"

text \<open>
  \<open>commands_of\<close> keeps the calls of \<^verbatim>\<open>SD_SendCommand\<close> of a trace; \<open>cmds\<close> are those of a
  world, \<open>new_commands w w'\<close> those added between two worlds, and \<open>issues S w w'\<close> says that
  all of them are in \<open>S\<close>. A command is \<open>accepted\<close> when the call returns \<^verbatim>\<open>SD_OK\<close> with
  R1 = 0. \<open>attempts n transfer\<close> is the retry policy in words: at most \<open>n\<close> attempts, a
  millisecond of back-off after each failed one, the first \<^verbatim>\<open>SD_OK\<close> ends it, and the last
  status is returned; \<open>attempts_made\<close> counts the attempts. The \<open>..._command_list\<close> functions
  are the commands a read or a write sends once it has passed its checks.
\<close>

fun commands_of :: "event list \<Rightarrow> (8 word \<times> 32 word \<times> 8 word) list" where
  "commands_of [] = []"
| "commands_of (Command c a crc # es) = (c, a, crc) # commands_of es"
| "commands_of (e # es) = commands_of es"

definition cmds :: "world \<Rightarrow> (8 word \<times> 32 word \<times> 8 word) list" where
  "cmds w = commands_of (trace w)"

definition new_commands :: "world \<Rightarrow> world \<Rightarrow> (8 word \<times> 32 word \<times> 8 word) list" where
  "new_commands w w' = drop (length (cmds w)) (cmds w')"

definition issues :: "(8 word \<times> 32 word \<times> 8 word) set \<Rightarrow> world \<Rightarrow> world \<Rightarrow> bool" where
  "issues S w w' = (\<exists>cs. cmds w' = cmds w @ cs \<and> set cs \<subseteq> S)"

definition accepted :: "SD_Status \<times> 8 word \<times> world \<Rightarrow> bool" where
  "accepted r = (fst r = SD_OK \<and> fst (snd r) = 0x00)"

fun attempts ::
  "nat \<Rightarrow> (SD_Handle_t \<Rightarrow> world \<Rightarrow> SD_Status \<times> SD_Handle_t \<times> world) \<Rightarrow> SD_Handle_t \<Rightarrow> SD_Status
     \<Rightarrow> world \<Rightarrow> SD_Status \<times> SD_Handle_t \<times> world" where
  "attempts 0 transfer h status w = (status, h, w)"
| "attempts (Suc n) transfer h status w =
     (case transfer h w of
        (status1, h1, w1) \<Rightarrow>
          if status1 = SD_OK then (status1, h1, w1)
          else attempts n transfer h1 status1 (SD_BackoffDelay w1))"

fun attempts_made ::
  "nat \<Rightarrow> (SD_Handle_t \<Rightarrow> world \<Rightarrow> SD_Status \<times> SD_Handle_t \<times> world) \<Rightarrow> SD_Handle_t \<Rightarrow> world \<Rightarrow> nat" where
  "attempts_made 0 transfer h w = 0"
| "attempts_made (Suc n) transfer h w =
     (case transfer h w of
        (status1, h1, w1) \<Rightarrow>
          if status1 = SD_OK then 1
          else Suc (attempts_made n transfer h1 (SD_BackoffDelay w1)))"

definition read_attempts :: "SD_Handle_t \<Rightarrow> ptr \<Rightarrow> 32 word \<Rightarrow> world \<Rightarrow> nat" where
  "read_attempts h buff address w =
     attempts_made (Suc SD_MAX_RETRIES) (\<lambda>h w. SD_ReadSingleBlockInternal h buff address w) h w"

definition write_attempts :: "SD_Handle_t \<Rightarrow> ptr \<Rightarrow> 32 word \<Rightarrow> world \<Rightarrow> nat" where
  "write_attempts h buff address w =
     attempts_made (Suc SD_MAX_RETRIES) (\<lambda>h w. SD_WriteSingleBlockInternal h buff address w) h w"

definition is_block_command :: "8 word \<Rightarrow> bool" where
  "is_block_command c = (c = CMD17 \<or> c = SD_CMD18 \<or> c = CMD24 \<or> c = SD_CMD25)"

definition addressed_at :: "32 word \<Rightarrow> (8 word \<times> 32 word \<times> 8 word) list \<Rightarrow> bool" where
  "addressed_at address cs = list_all (\<lambda>x. \<not> is_block_command (fst x) \<or> fst (snd x) = address) cs"

definition world_after :: "SD_Status \<times> SD_Handle_t option \<times> world \<Rightarrow> world" where
  "world_after r = snd (snd r)"

definition read_commands :: "32 word \<Rightarrow> (8 word \<times> 32 word \<times> 8 word) set" where
  "read_commands address = {(CMD17, address, 0xFF), (SD_CMD18, address, 0xFF), (SD_CMD12, 0, 0xFF)}"

definition write_commands :: "32 word \<Rightarrow> (8 word \<times> 32 word \<times> 8 word) set" where
  "write_commands address = {(CMD24, address, 0xFF), (SD_CMD25, address, 0xFF)}"

definition read_command_list ::
  "SD_Handle_t \<Rightarrow> ptr \<Rightarrow> 32 word \<Rightarrow> 32 word \<Rightarrow> world \<Rightarrow> (8 word \<times> 32 word \<times> 8 word) list" where
  "read_command_list h buff sector count w =
     (if count = 1
      then replicate (read_attempts h buff (block_address h sector) w)
             (CMD17, block_address h sector, 0xFF)
      else (SD_CMD18, block_address h sector, 0xFF)
             # (if accepted (SD_SendCommand h SD_CMD18 (block_address h sector) 0xFF 0xFF
                               (SD_Select h w))
                then [(SD_CMD12, 0, 0xFF)] else []))"

definition write_command_list ::
  "SD_Handle_t \<Rightarrow> ptr \<Rightarrow> 32 word \<Rightarrow> 32 word \<Rightarrow> world \<Rightarrow> (8 word \<times> 32 word \<times> 8 word) list" where
  "write_command_list h buff sector count w =
     (if count = 1
      then replicate (write_attempts h buff (block_address h sector) w)
             (CMD24, block_address h sector, 0xFF)
      else [(SD_CMD25, block_address h sector, 0xFF)])"

definition multi_read_command_list ::
  "SD_Handle_t \<Rightarrow> 32 word \<Rightarrow> world \<Rightarrow> (8 word \<times> 32 word \<times> 8 word) list" where
  "multi_read_command_list h sector w =
     (SD_CMD18, block_address h sector, 0xFF)
       # (if accepted (SD_SendCommand h SD_CMD18 (block_address h sector) 0xFF 0xFF (SD_Select h w))
          then [(SD_CMD12, 0, 0xFF)] else [])"

definition sdhc_handle :: SD_Handle_t where
  "sdhc_handle = ready_handle\<lparr>is_sdhc := True\<rparr>"

definition read_ok_card :: world where
  "read_ok_card = card [0xFF, 0xFF, 0xFF, 0xFF, 0xFF, 0xFF, 0xFF, 0xFF, 0x00, 0xFE]"

text \<open>
  The bus as the card drives it: \<open>incoming w j\<close> is the byte the \<open>j\<close>-th next exchange
  clocks in, \<open>spi_succeeds w\<close> says that every HAL transfer returns \<^verbatim>\<open>HAL_OK\<close>, and
  \<open>advance evs n t w\<close> is \<open>w\<close> after the events \<open>evs\<close>, \<open>n\<close> exchanges and \<open>t\<close> milliseconds.
  \<open>first_index P n j\<close> is the first of the \<open>n\<close> indices from \<open>j\<close> on that satisfies \<open>P\<close>.
  \<open>polls_allowed timeout now\<close> is the number of polls a wait makes at most when it is
  entered at counter value \<open>now\<close> with the 32-bit deadline \<open>timeout\<close>, and
  \<open>ready_polls timeout_ms w\<close> that number for a wait of \<open>timeout_ms\<close> entered in \<open>w\<close>: it is
  \<open>timeout_ms\<close> unless the deadline wraps. \<open>polls j\<close> are \<open>j\<close> unsuccessful polls, each
  followed by the back-off. \<open>wait_spec\<close>, \<open>poll_spec\<close> and \<open>send_command_spec\<close> describe the
  wait for a byte, the wait for R1 and \<^verbatim>\<open>SD_SendCommand\<close> by the index of the byte that ends
  them; \<open>packet cmd arg crc j\<close> are the events of a command that found the card ready at
  poll \<open>j\<close>, up to the last byte of its frame, and \<open>first_command\<close> those of an operation
  from its start to there. \<open>grows w w'\<close> says that \<open>w'\<close> has the SPI script of \<open>w\<close> and a trace
  that extends the trace of \<open>w\<close>; \<open>trace_begins w evs w'\<close> that the trace of \<open>w'\<close> is the one
  of \<open>w\<close>, then \<open>evs\<close>, then possibly more.
\<close>

definition incoming :: "world \<Rightarrow> nat \<Rightarrow> 8 word" where
  "incoming w j = (case rx (spi w (spi_pos w + j)) of [] \<Rightarrow> 0xFF | b # bs \<Rightarrow> b)"

definition spi_succeeds :: "world \<Rightarrow> bool" where
  "spi_succeeds w = (\<forall>n. hal (spi w n) = HAL_OK)"

definition advance :: "event list \<Rightarrow> nat \<Rightarrow> nat \<Rightarrow> world \<Rightarrow> world" where
  "advance evs n t w = w\<lparr>trace := trace w @ evs, spi_pos := spi_pos w + n, tick := tick w + t\<rparr>"

fun first_index :: "(nat \<Rightarrow> bool) \<Rightarrow> nat \<Rightarrow> nat \<Rightarrow> nat option" where
  "first_index P 0 j = None"
| "first_index P (Suc n) j = (if P j then Some j else first_index P n (Suc j))"

definition polls :: "nat \<Rightarrow> event list" where
  "polls j = concat (replicate j [SPI_RxByte, Delay_1ms])"

definition polls_allowed :: "32 word \<Rightarrow> 32 word \<Rightarrow> nat" where
  "polls_allowed timeout now =
     Suc (if now + 1 < timeout then unat timeout - unat (now + 1) else 0)"

definition ready_polls :: "nat \<Rightarrow> world \<Rightarrow> nat" where
  "ready_polls timeout_ms w =
     polls_allowed (HAL_GetTick w + of_nat timeout_ms) (HAL_GetTick w)"

definition wait_spec :: "8 word \<Rightarrow> nat \<Rightarrow> world \<Rightarrow> SD_Status \<times> world" where
  "wait_spec expected n w =
     (case first_index (\<lambda>j. incoming w j = expected) n 0 of
        None \<Rightarrow> (SD_TIMEOUT, advance (polls n) n n w)
      | Some j \<Rightarrow> (SD_OK, advance (polls j @ [SPI_RxByte]) (Suc j) j w))"

definition poll_spec :: "nat \<Rightarrow> 8 word \<Rightarrow> world \<Rightarrow> SD_Status \<times> 8 word \<times> world" where
  "poll_spec n response w =
     (case first_index (\<lambda>k. incoming w k AND 0x80 = 0) n 0 of
        None \<Rightarrow> (SD_TIMEOUT, response, advance (replicate n SPI_RxByte) n 0 w)
      | Some k \<Rightarrow> (SD_OK, incoming w k, advance (replicate (Suc k) SPI_RxByte) (Suc k) 0 w))"

definition packet :: "8 word \<Rightarrow> 32 word \<Rightarrow> 8 word \<Rightarrow> nat \<Rightarrow> event list" where
  "packet cmd arg crc j =
     Command cmd arg crc # polls j @ SPI_RxByte # map SPI_TxByte (0xFF # command_frame cmd arg crc)"

definition send_command_spec ::
  "8 word \<Rightarrow> 32 word \<Rightarrow> 8 word \<Rightarrow> 8 word \<Rightarrow> world \<Rightarrow> SD_Status \<times> 8 word \<times> world" where
  "send_command_spec cmd arg crc response w =
     (case first_index (\<lambda>j. incoming w j = 0xFF) (ready_polls SD_CMD_TIMEOUT_MS w) 0 of
        None \<Rightarrow>
          (SD_TIMEOUT, response,
           advance (Command cmd arg crc # polls (ready_polls SD_CMD_TIMEOUT_MS w))
             (ready_polls SD_CMD_TIMEOUT_MS w) (ready_polls SD_CMD_TIMEOUT_MS w) w)
      | Some j \<Rightarrow>
          (case first_index (\<lambda>k. incoming w k AND 0x80 = 0) 10 (j + 8) of
             None \<Rightarrow>
               (SD_TIMEOUT, response,
                advance (packet cmd arg crc j @ replicate 10 SPI_RxByte) (j + 18) j w)
           | Some k \<Rightarrow>
               (SD_OK, incoming w k,
                advance (packet cmd arg crc j @ replicate (k - (j + 7)) SPI_RxByte)
                  (Suc k) j w)))"

definition grows :: "world \<Rightarrow> world \<Rightarrow> bool" where
  "grows w w' = (spi w' = spi w \<and> (\<exists>evs. trace w' = trace w @ evs))"

definition trace_begins :: "world \<Rightarrow> event list \<Rightarrow> world \<Rightarrow> bool" where
  "trace_begins w evs w' = (take (length (trace w) + length evs) (trace w') = trace w @ evs)"

definition first_command :: "SD_Handle_t \<Rightarrow> 8 word \<Rightarrow> 32 word \<Rightarrow> nat \<Rightarrow> event list" where
  "first_command h cmd arg j =
     [Mutex_Take, CS_Write (cs_port h) (cs_pin h) GPIO_PIN_RESET] @ packet cmd arg 0xFF j"


definition write_multi_loop ::
  "SD_Handle_t \<Rightarrow> ptr \<Rightarrow> 32 word \<Rightarrow> 32 word \<Rightarrow> world \<Rightarrow> SD_Status \<times> SD_Handle_t \<times> world" where
  "write_multi_loop h buff sector count w =
     (let r = SD_SendCommand h SD_CMD25 (block_address h sector) 0xFF 0xFF (SD_Select h w)
      in write_blocks_loop h 0 (unat count) buff (dma_for h buff (snd (snd r))) (fst r)
           (fst (snd r)) (snd (snd r)))"








section \<open>The CSD fields as the specification reads them\<close>

text \<open>
  The fields of the register as numbers, written with division and remainder on the
  bytes: the structure field is the top two bits of byte 0; in version 2 \<open>C_SIZE\<close> is the
  low six bits of byte 7 followed by bytes 8 and 9; in version 1 \<open>C_SIZE\<close> is the low two
  bits of byte 6, byte 7 and the top two bits of byte 8, \<open>C_SIZE_MULT\<close> is the low two bits
  of byte 9 and the top bit of byte 10, \<open>READ_BL_LEN\<close> is the low four bits of byte 5.
\<close>

definition csd_structure_field :: "8 word list \<Rightarrow> nat" where
  "csd_structure_field csd = unat (csd ! 0) div 64"

definition c_size_v2 :: "8 word list \<Rightarrow> nat" where
  "c_size_v2 csd = (unat (csd ! 7) mod 64) * 65536 + unat (csd ! 8) * 256 + unat (csd ! 9)"

definition c_size_v1 :: "8 word list \<Rightarrow> nat" where
  "c_size_v1 csd = (unat (csd ! 6) mod 4) * 1024 + unat (csd ! 7) * 4 + unat (csd ! 8) div 64"

definition c_size_mult_v1 :: "8 word list \<Rightarrow> nat" where
  "c_size_mult_v1 csd = (unat (csd ! 9) mod 4) * 2 + unat (csd ! 10) div 128"

definition read_bl_len_v1 :: "8 word list \<Rightarrow> nat" where
  "read_bl_len_v1 csd = unat (csd ! 5) mod 16"

section \<open>Capacity from the CSD\<close>

lemma unat_byte_lt: "unat (b :: 8 word) < 256"
  using unsigned_less [of b, where 'a = nat] by simp

lemma unat_ucast_byte: "unat (ucast (b :: 8 word) :: 32 word) = unat b"
  using unat_byte_lt [of b] by (simp add: unsigned_ucast_eq take_bit_eq_mod)

lemma unat_push_ucast:
  fixes b :: "8 word"
  assumes "n \<le> 24"
  shows "unat (push_bit n (ucast b :: 32 word)) = unat b * 2 ^ n"
proof -
  have "(2::nat) ^ n \<le> 2 ^ 24" using assms by (intro power_increasing) auto
  then have "unat b * 2 ^ n < 256 * 2 ^ 24"
    using unat_byte_lt [of b] by (intro mult_less_le_imp_less) auto
  then have "unat b * 2 ^ n < 2 ^ 32" by simp
  then show ?thesis
    by (simp add: unsigned_push_bit_eq unat_ucast_byte take_bit_eq_mod [where 'a = nat]
        push_bit_eq_mult [where 'a = nat])
qed

lemma and_low_bits:
  fixes a :: "8 word"
  shows "a AND 0x3F = take_bit 6 a" "a AND 0x0F = take_bit 4 a" "a AND 0x03 = take_bit 2 a"
  by (simp_all add: take_bit_eq_mask mask_numeral)

lemma unat_take_bit_byte: "unat (take_bit n (a :: 8 word)) = unat a mod 2 ^ n"
  by (simp add: unsigned_take_bit_eq take_bit_eq_mod [where 'a = nat])

lemma unat_plus_no_wrap:
  fixes x y :: "32 word"
  assumes "unat x = a" and "unat y = b" and "a + b < 2 ^ 32"
  shows "unat (x + y) = a + b"
  using assms unat_add_lem [of x y] by simp

lemma unat_times_wrap:
  fixes x y :: "32 word"
  assumes "unat x = a" and "unat y = b"
  shows "unat (x * y) = (a * b) mod 2 ^ 32"
  using assms by (simp add: unat_word_ariths)

lemma unat_push_bit_1:
  assumes "n < 32"
  shows "unat (push_bit n (1 :: 32 word)) = 2 ^ n"
proof -
  have "(2::nat) ^ n < 2 ^ 32" using assms by (intro power_strict_increasing) auto
  then have "take_bit 32 (push_bit n (unat (1 :: 32 word))) = (2::nat) ^ n"
    by (simp add: take_bit_eq_mod [where 'a = nat] push_bit_eq_mult [where 'a = nat])
  then show ?thesis
    by (simp only: unsigned_push_bit_eq) simp
qed

lemma c_size_v2_word:
  fixes a b c :: "8 word"
  shows "unat (push_bit 16 (ucast (a AND 0x3F) :: 32 word) OR push_bit 8 (ucast b) OR ucast c)
       = (unat a mod 64) * 65536 + unat b * 256 + unat c"
proof -
  let ?x = "push_bit 16 (ucast (a AND 0x3F) :: 32 word)"
  let ?y = "push_bit 8 (ucast b) :: 32 word"
  let ?z = "ucast c :: 32 word"
  have yz: "?y OR ?z = ?y + ?z"
    by (rule disjunctive_add [symmetric]) (auto simp: bit_simps dest: bit_imp_le_length)
  have xyz: "?x OR (?y OR ?z) = ?x + (?y + ?z)"
    apply (simp only: yz [symmetric])
    apply (rule disjunctive_add [symmetric])
    apply (auto simp: bit_simps and_low_bits dest: bit_imp_le_length)
    done
  have ux: "unat ?x = (unat a mod 64) * 65536"
    by (simp add: unat_push_ucast and_low_bits unat_take_bit_byte)
  have uy: "unat ?y = unat b * 256"
    by (simp add: unat_push_ucast)
  have uz: "unat ?z = unat c"
    by (rule unat_ucast_byte)
  have ba: "unat a mod 64 < 64" by simp
  have bb: "unat b < 256" by (rule unat_byte_lt)
  have bc: "unat c < 256" by (rule unat_byte_lt)
  have "unat (?x + (?y + ?z)) = unat ?x + (unat ?y + unat ?z)"
    using ba bb bc
    by (simp add: unat_word_ariths ux uy uz)
  then show ?thesis
    by (simp add: xyz ux uy uz or.assoc)
qed

lemma c_size_v1_word:
  fixes a b c :: "8 word"
  shows "unat (push_bit 10 (ucast (a AND 0x03) :: 32 word) OR push_bit 2 (ucast b)
               OR drop_bit 6 (ucast c))
       = (unat a mod 4) * 1024 + unat b * 4 + unat c div 64"
proof -
  let ?x = "push_bit 10 (ucast (a AND 0x03) :: 32 word)"
  let ?y = "push_bit 2 (ucast b) :: 32 word"
  let ?z = "drop_bit 6 (ucast c) :: 32 word"
  have yz: "?y OR ?z = ?y + ?z"
    by (rule disjunctive_add [symmetric]) (auto simp: bit_simps dest: bit_imp_le_length)
  have xyz: "?x OR (?y OR ?z) = ?x + (?y + ?z)"
    apply (simp only: yz [symmetric])
    apply (rule disjunctive_add [symmetric])
    apply (auto simp: bit_simps and_low_bits dest: bit_imp_le_length)
    done
  have ux: "unat ?x = (unat a mod 4) * 1024"
    by (simp add: unat_push_ucast and_low_bits unat_take_bit_byte)
  have uy: "unat ?y = unat b * 4"
    by (simp add: unat_push_ucast)
  have uz: "unat ?z = unat c div 64"
    by (simp add: unat_drop_bit_eq unat_ucast_byte drop_bit_eq_div [where 'a = nat])
  have ba: "unat a mod 4 < 4" by simp
  have bb: "unat b < 256" by (rule unat_byte_lt)
  have bc: "unat c div 64 < 4" using unat_byte_lt [of c] by simp
  have "unat (?x + (?y + ?z)) = unat ?x + (unat ?y + unat ?z)"
    using ba bb bc
    by (simp add: unat_word_ariths ux uy uz)
  then show ?thesis
    by (simp add: xyz ux uy uz or.assoc)
qed

lemma c_size_mult_word:
  fixes a b :: "8 word"
  shows "unat (push_bit 1 (ucast (a AND 0x03) :: 32 word) OR (ucast (drop_bit 7 b) AND 0x01))
       = (unat a mod 4) * 2 + unat b div 128"
proof -
  let ?x = "push_bit 1 (ucast (a AND 0x03) :: 32 word)"
  let ?y = "ucast (drop_bit 7 b) AND 0x01 :: 32 word"
  have y1: "?y = take_bit 1 (ucast (drop_bit 7 b))"
    by (simp add: take_bit_eq_mask mask_numeral)
  have xy: "?x OR ?y = ?x + ?y"
    apply (rule disjunctive_add [symmetric])
    apply (simp only: y1)
    apply (auto simp: bit_simps dest: bit_imp_le_length)
    apply (rule ccontr)
    apply (simp add: bit_0)
    done
  have ux: "unat ?x = (unat a mod 4) * 2"
    using unat_push_ucast [of 1 "a AND 0x03"]
    by (simp add: and_low_bits unat_take_bit_byte)
  have bd: "unat b div 128 < 2" using unat_byte_lt [of b] by simp
  have uy: "unat ?y = unat b div 128"
    using bd
    by (simp only: y1) (simp add: unat_mod unat_ucast_byte unat_drop_bit_eq
        drop_bit_eq_div [where 'a = nat])
  have "unat (?x + ?y) = (unat a mod 4) * 2 + unat b div 128"
    by (rule unat_plus_no_wrap [OF ux uy]) (use bd in simp)
  then show ?thesis
    by (simp only: xy)
qed


lemma csd_structure_word:
  fixes b :: "8 word"
  shows "unat (drop_bit 6 b AND 0x3) = unat b div 64"
proof -
  have "drop_bit 6 b AND 0x3 = take_bit 2 (drop_bit 6 b)"
    by (simp add: take_bit_eq_mask mask_numeral)
  moreover have "unat b div 64 < 4" using unat_byte_lt [of b] by simp
  ultimately show ?thesis
    by (simp add: unat_take_bit_byte unat_drop_bit_eq drop_bit_eq_div [where 'a = nat])
qed

lemma csd_structure_cases:
  fixes b :: "8 word"
  shows "(drop_bit 6 b AND 0x3 = 1) = (unat b div 64 = 1)"
    and "(drop_bit 6 b AND 0x3 = 0) = (unat b div 64 = 0)"
  by (simp_all only: word_unat_eq_iff csd_structure_word unat_1 unat_0)

lemma capacity_v2:
  assumes "csd_structure_field csd = 1"
  shows "unat (capacity_blocks (SD_ParseCSD h csd)) = ((c_size_v2 csd + 1) * 1024) mod 2 ^ 32"
proof -
  let ?c = "push_bit 16 (ucast (csd ! 7 AND 0x3F) :: 32 word) OR push_bit 8 (ucast (csd ! 8))
              OR ucast (csd ! 9)"
  have c: "unat ?c = c_size_v2 csd"
    by (simp only: c_size_v2_word c_size_v2_def)
  have "c_size_v2 csd < 64 * 65536"
    using unat_byte_lt [of "csd ! 8"] unat_byte_lt [of "csd ! 9"]
    by (simp add: c_size_v2_def) 
  then have c1: "unat (?c + 1) = c_size_v2 csd + 1"
    by (intro unat_plus_no_wrap [OF c]) auto
  have "capacity_blocks (SD_ParseCSD h csd) = (?c + 1) * 1024"
    using assms by (simp add: SD_ParseCSD_def Let_def csd_structure_cases csd_structure_field_def)
  moreover have "unat ((?c + 1) * 1024) = ((c_size_v2 csd + 1) * 1024) mod 2 ^ 32"
    by (rule unat_times_wrap [OF c1]) simp
  ultimately show ?thesis
    by (simp only:)
qed

lemma capacity_v1:
  assumes "csd_structure_field csd = 0"
    and "(c_size_v1 csd + 1) * 2 ^ (c_size_mult_v1 csd + 2) * 2 ^ read_bl_len_v1 csd < 2 ^ 32"
  shows "unat (capacity_blocks (SD_ParseCSD h csd))
       = (c_size_v1 csd + 1) * 2 ^ (c_size_mult_v1 csd + 2) * 2 ^ read_bl_len_v1 csd div 512"
proof -
  let ?c = "push_bit 10 (ucast (csd ! 6 AND 0x03) :: 32 word) OR push_bit 2 (ucast (csd ! 7))
              OR drop_bit 6 (ucast (csd ! 8))"
  let ?m = "push_bit 1 (ucast (csd ! 9 AND 0x03) :: 32 word)
              OR (ucast (drop_bit 7 (csd ! 10)) AND 0x01)"
  let ?r = "ucast (csd ! 5 AND 0x0F) :: 32 word"
  have c: "unat ?c = c_size_v1 csd"
    by (simp only: c_size_v1_word c_size_v1_def)
  have m: "unat ?m = c_size_mult_v1 csd"
    by (simp only: c_size_mult_word c_size_mult_v1_def)
  have r: "unat ?r = read_bl_len_v1 csd"
    by (simp add: unat_ucast_byte and_low_bits unat_take_bit_byte read_bl_len_v1_def)
  have cb: "c_size_v1 csd < 4096"
    using unat_byte_lt [of "csd ! 7"] unat_byte_lt [of "csd ! 8"]
    by (simp add: c_size_v1_def)
  have mb: "c_size_mult_v1 csd < 8"
    using unat_byte_lt [of "csd ! 10"] by (simp add: c_size_mult_v1_def)
  have rb: "read_bl_len_v1 csd < 16"
    by (simp add: read_bl_len_v1_def)
  have c1: "unat (?c + 1) = c_size_v1 csd + 1"
    using cb by (intro unat_plus_no_wrap [OF c]) auto
  have m2: "unat (?m + 2) = c_size_mult_v1 csd + 2"
    using mb by (intro unat_plus_no_wrap [OF m]) auto
  have bl: "unat (push_bit (unat ?r) (1 :: 32 word)) = 2 ^ read_bl_len_v1 csd"
    using rb by (simp only: r) (rule unat_push_bit_1, simp)
  have mu: "unat (push_bit (unat (?m + 2)) (1 :: 32 word)) = 2 ^ (c_size_mult_v1 csd + 2)"
    using mb by (simp only: m2) (rule unat_push_bit_1, simp)
  have "(c_size_v1 csd + 1) * 2 ^ (c_size_mult_v1 csd + 2) \<le> 4096 * 2 ^ 9"
    using cb mb by (intro mult_mono power_increasing) auto
  then have bn: "unat ((?c + 1) * push_bit (unat (?m + 2)) 1)
            = (c_size_v1 csd + 1) * 2 ^ (c_size_mult_v1 csd + 2)"
    by (simp only: unat_times_wrap [OF c1 mu]) simp
  have cbytes: "unat ((?c + 1) * push_bit (unat (?m + 2)) 1 * push_bit (unat ?r) 1)
            = (c_size_v1 csd + 1) * 2 ^ (c_size_mult_v1 csd + 2) * 2 ^ read_bl_len_v1 csd"
    using assms(2) by (simp only: unat_times_wrap [OF bn bl]) simp
  have "capacity_blocks (SD_ParseCSD h csd)
      = (?c + 1) * push_bit (unat (?m + 2)) 1 * push_bit (unat ?r) 1 div SD_BLOCK_SIZE"
    using assms(1) by (simp add: SD_ParseCSD_def Let_def csd_structure_cases csd_structure_field_def)
  then have "unat (capacity_blocks (SD_ParseCSD h csd))
      = unat ((?c + 1) * push_bit (unat (?m + 2)) 1 * push_bit (unat ?r) 1) div unat SD_BLOCK_SIZE"
    by (simp only: unat_div)
  then show ?thesis
    by (simp only: cbytes SD_BLOCK_SIZE_def) simp
qed

lemma capacity_unknown:
  assumes "csd_structure_field csd \<noteq> 0" "csd_structure_field csd \<noteq> 1"
  shows "capacity_blocks (SD_ParseCSD h csd) = 0"
  using assms by (simp add: SD_ParseCSD_def Let_def csd_structure_cases csd_structure_field_def)

text \<open>
  C5, as amended. For every 16-byte CSD: with structure 1 the capacity in blocks is
  \<open>(C_SIZE + 1) * 1024\<close> reduced modulo \<open>2^32\<close>, \<open>C_SIZE\<close> being the 22-bit field of bytes
  7 to 9; with structure 0 it is \<open>(C_SIZE + 1) * 2^(C_SIZE_MULT+2) * 2^READ_BL_LEN\<close> divided
  by 512 whenever that product of bytes is below \<open>2^32\<close>; with any other structure it is 0.
\<close>

theorem parse_csd_capacity:
  assumes "length csd = 16"
  shows "(csd_structure_field csd = 1 \<longrightarrow>
            unat (capacity_blocks (SD_ParseCSD h csd)) = ((c_size_v2 csd + 1) * 1024) mod 2 ^ 32)
       \<and> (csd_structure_field csd = 0
            \<and> (c_size_v1 csd + 1) * 2 ^ (c_size_mult_v1 csd + 2) * 2 ^ read_bl_len_v1 csd < 2 ^ 32 \<longrightarrow>
            unat (capacity_blocks (SD_ParseCSD h csd))
              = (c_size_v1 csd + 1) * 2 ^ (c_size_mult_v1 csd + 2) * 2 ^ read_bl_len_v1 csd div 512)
       \<and> (csd_structure_field csd \<noteq> 0 \<and> csd_structure_field csd \<noteq> 1 \<longrightarrow>
            capacity_blocks (SD_ParseCSD h csd) = 0)"
  using capacity_v2 [of csd h] capacity_v1 [of csd h] capacity_unknown [of csd h]
  by blast

lemma csd_fields_examples:
  "csd_structure_field csd_sdhc = 1" "c_size_v2 csd_sdhc = 15007"
  "csd_structure_field csd_sdsc = 0" "c_size_v1 csd_sdsc = 3874"
  "c_size_mult_v1 csd_sdsc = 7" "read_bl_len_v1 csd_sdsc = 9"
  "csd_structure_field csd_reserved = 2"
  by (simp_all add: csd_structure_field_def c_size_v2_def c_size_v1_def c_size_mult_v1_def
      read_bl_len_v1_def csd_sdhc_def csd_sdsc_def csd_reserved_def)

theorem parse_csd_capacity_witness:
  "length csd_sdhc = 16 \<and> csd_structure_field csd_sdhc = 1
   \<and> unat (capacity_blocks (SD_ParseCSD ready_handle csd_sdhc)) = 15368192
   \<and> length csd_sdsc = 16 \<and> csd_structure_field csd_sdsc = 0
   \<and> (c_size_v1 csd_sdsc + 1) * 2 ^ (c_size_mult_v1 csd_sdsc + 2) * 2 ^ read_bl_len_v1 csd_sdsc
        < (2::nat) ^ 32
   \<and> unat (capacity_blocks (SD_ParseCSD ready_handle csd_sdsc)) = 1984000
   \<and> length csd_reserved = 16 \<and> csd_structure_field csd_reserved = 2
   \<and> capacity_blocks (SD_ParseCSD ready_handle csd_reserved) = 0"
proof -
  have l: "length csd_sdhc = 16" "length csd_sdsc = 16" "length csd_reserved = 16"
    by (simp_all add: csd_sdhc_def csd_sdsc_def csd_reserved_def)
  show ?thesis
    using parse_csd_capacity [OF l(1), of ready_handle]
      parse_csd_capacity [OF l(2), of ready_handle]
      parse_csd_capacity [OF l(3), of ready_handle]
    by (simp add: l csd_fields_examples)
qed

text \<open>
  C5 as it is written fails where 32 bits are not enough. A version 2 register with
  \<open>C_SIZE = 0x3FFFFF\<close> gives 0 blocks, not \<open>2^32\<close>; a version 1 register with
  \<open>C_SIZE = 4095\<close>, \<open>C_SIZE_MULT = 7\<close> and \<open>READ_BL_LEN = 11\<close> gives 0 blocks, not 8388608.
\<close>

theorem parse_csd_capacity_counterexample:
  "length csd_v2_largest = 16 \<and> csd_structure_field csd_v2_largest = 1
   \<and> (c_size_v2 csd_v2_largest + 1) * 1024 = 4294967296
   \<and> unat (capacity_blocks (SD_ParseCSD ready_handle csd_v2_largest)) = 0
   \<and> length csd_v1_4gib = 16 \<and> csd_structure_field csd_v1_4gib = 0
   \<and> (c_size_v1 csd_v1_4gib + 1) * 2 ^ (c_size_mult_v1 csd_v1_4gib + 2)
        * 2 ^ read_bl_len_v1 csd_v1_4gib div 512 = 8388608
   \<and> unat (capacity_blocks (SD_ParseCSD ready_handle csd_v1_4gib)) = 0"
  by (simp add: csd_structure_field_def c_size_v2_def c_size_v1_def c_size_mult_v1_def
      read_bl_len_v1_def csd_v2_largest_def csd_v1_4gib_def SD_ParseCSD_def SD_BLOCK_SIZE_def)

section \<open>Write data response\<close>

text \<open>
  C1. The byte \<^verbatim>\<open>0xEB\<close> is a data response whose low five bits are \<^verbatim>\<open>0x0B\<close>, the CRC
  error pattern (the three high bits of a data response are not defined, and a line
  idling high makes them 1). The code rejects it, since its masked value is not
  \<^verbatim>\<open>0x05\<close>, and then compares the unmasked byte with \<^verbatim>\<open>0x0B\<close>: the single-block write
  and the multi-block write both return \<^verbatim>\<open>SD_WRITE_ERROR\<close>, while the byte \<^verbatim>\<open>0x0B\<close>, with
  the same low five bits, gives \<^verbatim>\<open>SD_CRC_ERROR\<close>.
\<close>

definition crc_error_card :: "8 word \<Rightarrow> world" where
  "crc_error_card r =
     card [0xFF, 0xFF, 0xFF, 0xFF, 0xFF, 0xFF, 0xFF, 0xFF, 0x00, 0xFF, 0xFF, 0xFF, 0xFF, r]"

theorem data_response_crc_unmasked:
  "(0xEB :: 8 word) AND SD_DATA_RESP_MASK = SD_DATA_RESP_CRC_ERR
   \<and> (0x0B :: 8 word) AND SD_DATA_RESP_MASK = SD_DATA_RESP_CRC_ERR
   \<and> fst (SD_WriteSingleBlockInternal ready_handle 0x20001000 0 (crc_error_card 0xEB))
        = SD_WRITE_ERROR
   \<and> fst (SD_WriteSingleBlockInternal ready_handle 0x20001000 0 (crc_error_card 0x0B))
        = SD_CRC_ERROR
   \<and> fst (SD_WriteMultiBlocksInternal ready_handle 0x20001000 0 2 (crc_error_card 0xEB))
        = SD_WRITE_ERROR
   \<and> fst (SD_WriteMultiBlocksInternal ready_handle 0x20001000 0 2 (crc_error_card 0x0B))
        = SD_CRC_ERROR"
  by code_simp

theorem data_response_crc_unmasked_witness:
  "(0xEB :: 8 word) AND SD_DATA_RESP_MASK = (0x0B :: 8 word) AND SD_DATA_RESP_MASK
   \<and> fst (SD_WriteSingleBlockInternal ready_handle 0x20001000 0 (crc_error_card 0xEB))
        \<noteq> fst (SD_WriteSingleBlockInternal ready_handle 0x20001000 0 (crc_error_card 0x0B))
   \<and> fst (SD_WriteMultiBlocksInternal ready_handle 0x20001000 0 2 (crc_error_card 0xEB))
        \<noteq> fst (SD_WriteMultiBlocksInternal ready_handle 0x20001000 0 2 (crc_error_card 0x0B))"
  using data_response_crc_unmasked by simp

section \<open>Queries on a null handle\<close>

text \<open>
  C10. With a null handle pointer \<^verbatim>\<open>SD_IsSDHC\<close>, \<^verbatim>\<open>SD_IsInitialized\<close> and
  \<^verbatim>\<open>SD_IsCardPresent\<close> return false, \<^verbatim>\<open>SD_GetBlockCount\<close> returns 0, \<^verbatim>\<open>SD_GetStats\<close> leaves
  the destination as it is and \<^verbatim>\<open>SD_ResetStats\<close> has no handle to change; none of them
  reads a field.
\<close>

theorem null_handle_queries:
  "SD_IsSDHC None = False
   \<and> SD_IsInitialized None = False
   \<and> SD_GetBlockCount None = 0
   \<and> SD_IsCardPresent None w = False
   \<and> SD_GetStats None out = out
   \<and> SD_ResetStats None = None"
  by (simp add: SD_IsSDHC_def SD_IsInitialized_def SD_GetBlockCount_def SD_IsCardPresent_def
      SD_GetStats_def SD_ResetStats_def)

section \<open>What a transfer leaves of the handle\<close>

lemma frame_SD_SPI_Transmit [simp]:
  "frame (fst (snd (SD_SPI_Transmit h b n d w))) = frame h"
  by (simp add: SD_SPI_Transmit_def frame_def Let_def case_prod_beta split: dma_irq.split)

lemma frame_SD_SPI_TransmitReceive [simp]:
  "frame (fst (snd (snd (SD_SPI_TransmitReceive h b n d w)))) = frame h"
  by (simp add: SD_SPI_TransmitReceive_def frame_def Let_def case_prod_beta split: dma_irq.split)

lemma frame_SD_ReadSingleBlockInternal [simp]:
  "frame (fst (snd (SD_ReadSingleBlockInternal h buff address w))) = frame h"
  by (simp add: SD_ReadSingleBlockInternal_def case_prod_beta)

lemma frame_SD_WriteSingleBlockInternal [simp]:
  "frame (fst (snd (SD_WriteSingleBlockInternal h buff address w))) = frame h"
  by (simp add: SD_WriteSingleBlockInternal_def case_prod_beta Let_def)

lemma frame_read_block_step [simp]:
  "frame (fst (snd (read_block_step h buff dma w))) = frame h"
  by (simp add: read_block_step_def case_prod_beta)

lemma frame_write_block_step [simp]:
  "frame (fst (snd (snd (write_block_step h buff dma r w)))) = frame h"
  by (simp add: write_block_step_def case_prod_beta Let_def)

lemma frame_read_blocks_loop [simp]:
  "frame (fst (snd (read_blocks_loop h i count buff dma st w))) = frame h"
proof (induction h i count buff dma st w rule: read_blocks_loop.induct)
  case (1 h i count buff dma status w)
  show ?case
  proof (cases "i < count \<and> fst (read_block_step h buff dma w) = SD_OK")
    case True
    then show ?thesis
      using "1.IH" [OF _ prod.collapse prod.collapse] 
      by (subst read_blocks_loop.simps) (simp add: case_prod_beta)
  next
    case False
    then show ?thesis
      by (subst read_blocks_loop.simps) (auto simp: case_prod_beta)
  qed
qed


lemma frame_write_blocks_loop [simp]:
  "frame (fst (snd (write_blocks_loop h i count buff dma st r w))) = frame h"
proof (induction h i count buff dma st r w rule: write_blocks_loop.induct)
  case (1 h i count buff dma status response w)
  show ?case
  proof (cases "i < count \<and> fst (write_block_step h buff dma response w) = SD_OK")
    case True
    then show ?thesis
      using "1.IH" [OF _ prod.collapse prod.collapse prod.collapse]
      by (subst write_blocks_loop.simps) (simp add: case_prod_beta)
  next
    case False
    then show ?thesis
      by (subst write_blocks_loop.simps) (auto simp: case_prod_beta)
  qed
qed

lemma frame_SD_ReadMultiBlocksInternal [simp]:
  "frame (fst (snd (SD_ReadMultiBlocksInternal h buff sector count w))) = frame h"
  by (simp add: SD_ReadMultiBlocksInternal_def case_prod_beta Let_def)

lemma frame_SD_WriteMultiBlocksInternal [simp]:
  "frame (fst (snd (SD_WriteMultiBlocksInternal h buff sector count w))) = frame h"
  by (simp add: SD_WriteMultiBlocksInternal_def case_prod_beta Let_def)

lemma frame_read_retry_loop [simp]:
  "frame (fst (snd (read_retry_loop h attempt buff address st w))) = frame h"
proof (induction h attempt buff address st w rule: read_retry_loop.induct)
  case (1 h attempt buff address status w)
  show ?case
  proof (cases "attempt \<le> SD_MAX_RETRIES \<and> fst (SD_ReadSingleBlockInternal h buff address w) \<noteq> SD_OK")
    case True
    then show ?thesis
      using "1.IH" [OF _ prod.collapse prod.collapse]
      by (subst read_retry_loop.simps) (simp add: case_prod_beta)
  next
    case False
    then show ?thesis
      by (subst read_retry_loop.simps) (auto simp: case_prod_beta)
  qed
qed

lemma frame_write_retry_loop [simp]:
  "frame (fst (snd (write_retry_loop h attempt buff address st w))) = frame h"
proof (induction h attempt buff address st w rule: write_retry_loop.induct)
  case (1 h attempt buff address status w)
  show ?case
  proof (cases "attempt \<le> SD_MAX_RETRIES \<and> fst (SD_WriteSingleBlockInternal h buff address w) \<noteq> SD_OK")
    case True
    then show ?thesis
      using "1.IH" [OF _ prod.collapse prod.collapse]
      by (subst write_retry_loop.simps) (simp add: case_prod_beta)
  next
    case False
    then show ?thesis
      by (subst write_retry_loop.simps) (auto simp: case_prod_beta)
  qed
qed

lemma frame_fields:
  assumes "frame h' = frame h"
  shows "stats h' = stats h" and "initialized h' = initialized h" and "is_sdhc h' = is_sdhc h"
    and "last_status h' = last_status h" and "capacity_blocks h' = capacity_blocks h"
    and "mutex h' = mutex h" and "has_cd h' = has_cd h"
proof -
  have f: "stats (frame x) = stats x" "initialized (frame x) = initialized x"
    "is_sdhc (frame x) = is_sdhc x" "last_status (frame x) = last_status x"
    "capacity_blocks (frame x) = capacity_blocks x" "mutex (frame x) = mutex x"
    "has_cd (frame x) = has_cd x" for x
    by (simp_all add: frame_def)
  show "stats h' = stats h"
    using arg_cong [OF assms, of stats] by (simp only: f)
  show "initialized h' = initialized h"
    using arg_cong [OF assms, of initialized] by (simp only: f)
  show "is_sdhc h' = is_sdhc h"
    using arg_cong [OF assms, of is_sdhc] by (simp only: f)
  show "last_status h' = last_status h"
    using arg_cong [OF assms, of last_status] by (simp only: f)
  show "capacity_blocks h' = capacity_blocks h"
    using arg_cong [OF assms, of capacity_blocks] by (simp only: f)
  show "mutex h' = mutex h"
    using arg_cong [OF assms, of mutex] by (simp only: f)
  show "has_cd h' = has_cd h"
    using arg_cong [OF assms, of has_cd] by (simp only: f)
qed

section \<open>The paths of the block operations\<close>

lemma counters_return_recorded [simp]:
  "counters_after (return_recorded (Some h) st w) = Some (counters h)"
  by (simp add: counters_after_def counters_def return_recorded_def SD_RecordStatus_def
      bump_errors_def Let_def)

lemma counters_frame: "frame h' = frame h \<Longrightarrow> counters h' = counters h"
  using frame_fields(1) [of h' h] by (simp add: counters_def)


lemma SD_ReadBlocks_param:
  "buff = NULL \<or> count = 0 \<Longrightarrow>
   SD_ReadBlocks (Some h) buff sector count w = return_recorded (Some h) SD_PARAM w"
  unfolding SD_ReadBlocks_def by auto

lemma SD_ReadBlocks_no_media:
  "buff \<noteq> NULL \<Longrightarrow> count \<noteq> 0 \<Longrightarrow> \<not> SD_IsCardPresent (Some h) w \<Longrightarrow>
   SD_ReadBlocks (Some h) buff sector count w
     = return_recorded (Some (h\<lparr>initialized := False\<rparr>)) SD_NO_MEDIA w"
  unfolding SD_ReadBlocks_def by simp

lemma SD_ReadBlocks_lock_failed:
  "buff \<noteq> NULL \<Longrightarrow> count \<noteq> 0 \<Longrightarrow> SD_IsCardPresent (Some h) w \<Longrightarrow>
   fst (SD_Lock h w) \<noteq> SD_OK \<Longrightarrow>
   SD_ReadBlocks (Some h) buff sector count w
     = return_recorded (Some h) (fst (SD_Lock h w)) (snd (SD_Lock h w))"
  unfolding SD_ReadBlocks_def by (simp add: case_prod_beta)

lemma SD_ReadBlocks_uninitialized:
  "buff \<noteq> NULL \<Longrightarrow> count \<noteq> 0 \<Longrightarrow> SD_IsCardPresent (Some h) w \<Longrightarrow>
   fst (SD_Lock h w) = SD_OK \<Longrightarrow> \<not> initialized h \<Longrightarrow>
   SD_ReadBlocks (Some h) buff sector count w
     = return_recorded (Some h) SD_ERROR (SD_Unlock h (snd (SD_Lock h w)))"
  unfolding SD_ReadBlocks_def by (simp add: case_prod_beta)

lemma SD_WriteBlocks_param:
  "buff = NULL \<or> count = 0 \<Longrightarrow>
   SD_WriteBlocks (Some h) buff sector count w = return_recorded (Some h) SD_PARAM w"
  unfolding SD_WriteBlocks_def by auto

lemma SD_WriteBlocks_no_media:
  "buff \<noteq> NULL \<Longrightarrow> count \<noteq> 0 \<Longrightarrow> \<not> SD_IsCardPresent (Some h) w \<Longrightarrow>
   SD_WriteBlocks (Some h) buff sector count w
     = return_recorded (Some (h\<lparr>initialized := False\<rparr>)) SD_NO_MEDIA w"
  unfolding SD_WriteBlocks_def by simp

lemma SD_WriteBlocks_lock_failed:
  "buff \<noteq> NULL \<Longrightarrow> count \<noteq> 0 \<Longrightarrow> SD_IsCardPresent (Some h) w \<Longrightarrow>
   fst (SD_Lock h w) \<noteq> SD_OK \<Longrightarrow>
   SD_WriteBlocks (Some h) buff sector count w
     = return_recorded (Some h) (fst (SD_Lock h w)) (snd (SD_Lock h w))"
  unfolding SD_WriteBlocks_def by (simp add: case_prod_beta)

lemma SD_WriteBlocks_uninitialized:
  "buff \<noteq> NULL \<Longrightarrow> count \<noteq> 0 \<Longrightarrow> SD_IsCardPresent (Some h) w \<Longrightarrow>
   fst (SD_Lock h w) = SD_OK \<Longrightarrow> \<not> initialized h \<Longrightarrow>
   SD_WriteBlocks (Some h) buff sector count w
     = return_recorded (Some h) SD_ERROR (SD_Unlock h (snd (SD_Lock h w)))"
  unfolding SD_WriteBlocks_def by (simp add: case_prod_beta)

lemma SD_ReadMultiBlocks_param:
  "buff = NULL \<or> count = 0 \<Longrightarrow>
   SD_ReadMultiBlocks (Some h) buff sector count w = return_recorded (Some h) SD_PARAM w"
  unfolding SD_ReadMultiBlocks_def by auto

lemma SD_ReadMultiBlocks_no_media:
  "buff \<noteq> NULL \<Longrightarrow> count \<noteq> 0 \<Longrightarrow> \<not> SD_IsCardPresent (Some h) w \<Longrightarrow>
   SD_ReadMultiBlocks (Some h) buff sector count w
     = return_recorded (Some (h\<lparr>initialized := False\<rparr>)) SD_NO_MEDIA w"
  unfolding SD_ReadMultiBlocks_def by simp

lemma SD_ReadMultiBlocks_lock_failed:
  "buff \<noteq> NULL \<Longrightarrow> count \<noteq> 0 \<Longrightarrow> SD_IsCardPresent (Some h) w \<Longrightarrow>
   fst (SD_Lock h w) \<noteq> SD_OK \<Longrightarrow>
   SD_ReadMultiBlocks (Some h) buff sector count w
     = return_recorded (Some h) (fst (SD_Lock h w)) (snd (SD_Lock h w))"
  unfolding SD_ReadMultiBlocks_def by (simp add: case_prod_beta)

lemma SD_WriteMultiBlocks_param:
  "buff = NULL \<or> count = 0 \<Longrightarrow>
   SD_WriteMultiBlocks (Some h) buff sector count w = return_recorded (Some h) SD_PARAM w"
  unfolding SD_WriteMultiBlocks_def by auto

lemma SD_WriteMultiBlocks_no_media:
  "buff \<noteq> NULL \<Longrightarrow> count \<noteq> 0 \<Longrightarrow> \<not> SD_IsCardPresent (Some h) w \<Longrightarrow>
   SD_WriteMultiBlocks (Some h) buff sector count w
     = return_recorded (Some (h\<lparr>initialized := False\<rparr>)) SD_NO_MEDIA w"
  unfolding SD_WriteMultiBlocks_def by simp

lemma SD_WriteMultiBlocks_lock_failed:
  "buff \<noteq> NULL \<Longrightarrow> count \<noteq> 0 \<Longrightarrow> SD_IsCardPresent (Some h) w \<Longrightarrow>
   fst (SD_Lock h w) \<noteq> SD_OK \<Longrightarrow>
   SD_WriteMultiBlocks (Some h) buff sector count w
     = return_recorded (Some h) (fst (SD_Lock h w)) (snd (SD_Lock h w))"
  unfolding SD_WriteMultiBlocks_def by (simp add: case_prod_beta)

lemma SD_ReadBlocks_run:
  "passes_guards h buff count w \<Longrightarrow>
   SD_ReadBlocks (Some h) buff sector count w
     = finish (if count = 1
               then read_retry_loop (counted_read h count) 0 buff (block_address h sector) SD_OK
                      (snd (SD_Lock h w))
               else SD_ReadMultiBlocksInternal (counted_read h count) buff sector count
                      (snd (SD_Lock h w)))"
  unfolding SD_ReadBlocks_def passes_guards_def finish_def counted_read_def block_address_def
  by (simp add: case_prod_beta Let_def)

lemma SD_WriteBlocks_run:
  "passes_guards h buff count w \<Longrightarrow>
   SD_WriteBlocks (Some h) buff sector count w
     = finish (if count = 1
               then write_retry_loop (counted_write h count) 0 buff (block_address h sector) SD_OK
                      (snd (SD_Lock h w))
               else SD_WriteMultiBlocksInternal (counted_write h count) buff sector count
                      (snd (SD_Lock h w)))"
  unfolding SD_WriteBlocks_def passes_guards_def finish_def counted_write_def block_address_def
  by (simp add: case_prod_beta Let_def)

section \<open>Recording of the status\<close>

lemma status_recorded_return: "status_recorded (return_recorded (Some h) st w)"
  by (simp add: status_recorded_def return_recorded_def SD_RecordStatus_def)

lemma recorded_init_after_ready: "status_recorded (init_after_ready h response w)"
  by (simp add: init_after_ready_def Let_def status_recorded_return split: prod.split)

lemma recorded_SD_SPI_Init: "status_recorded (SD_SPI_Init (Some h) w)"
  by (simp add: SD_SPI_Init_def Let_def status_recorded_return recorded_init_after_ready
      split: prod.split)

lemma recorded_SD_ReadBlocks: "status_recorded (SD_ReadBlocks (Some h) buff sector count w)"
  by (simp add: SD_ReadBlocks_def Let_def status_recorded_return split: prod.split)

lemma recorded_SD_WriteBlocks: "status_recorded (SD_WriteBlocks (Some h) buff sector count w)"
  by (simp add: SD_WriteBlocks_def Let_def status_recorded_return split: prod.split)

lemma recorded_SD_ReadMultiBlocks:
  "status_recorded (SD_ReadMultiBlocks (Some h) buff sector count w)"
  by (simp add: SD_ReadMultiBlocks_def Let_def status_recorded_return split: prod.split)

lemma recorded_SD_WriteMultiBlocks:
  "status_recorded (SD_WriteMultiBlocks (Some h) buff sector count w)"
  by (simp add: SD_WriteMultiBlocks_def Let_def status_recorded_return split: prod.split)

lemma recorded_SD_Sync: "status_recorded (SD_Sync (Some h) w)"
  by (simp add: SD_Sync_def Let_def status_recorded_return split: prod.split)

lemma recorded_SD_Init:
  "hspi_arg \<noteq> NULL \<Longrightarrow> cs_port_arg \<noteq> NULL \<Longrightarrow>
   status_recorded (SD_Init (Some h) hspi_arg cs_port_arg cs_pin_arg use_dma_arg w)"
  by (simp add: SD_Init_def Let_def status_recorded_return split: prod.split)
     (simp add: status_recorded_def)

lemma SD_Init_param:
  "hspi_arg = NULL \<or> cs_port_arg = NULL \<Longrightarrow>
   SD_Init (Some h) hspi_arg cs_port_arg cs_pin_arg use_dma_arg w = (SD_PARAM, Some h, w)"
  by (simp add: SD_Init_def)

text \<open>
  C9, as amended. On a non-null handle, \<^verbatim>\<open>SD_SPI_Init\<close>, \<^verbatim>\<open>SD_ReadBlocks\<close>,
  \<^verbatim>\<open>SD_WriteBlocks\<close>, \<^verbatim>\<open>SD_ReadMultiBlocks\<close>, \<^verbatim>\<open>SD_WriteMultiBlocks\<close> and \<^verbatim>\<open>SD_Sync\<close> leave
  in \<open>last_status\<close> the status they return, and so does \<^verbatim>\<open>SD_Init\<close> when the SPI handle and
  the chip-select port are non-null; \<^verbatim>\<open>SD_Init\<close> with a null SPI handle or chip-select port
  returns \<^verbatim>\<open>SD_PARAM\<close> and leaves the handle untouched.
\<close>

theorem last_status_is_returned_status:
  "status_recorded (SD_SPI_Init (Some h) w)
   \<and> status_recorded (SD_ReadBlocks (Some h) buff sector count w)
   \<and> status_recorded (SD_WriteBlocks (Some h) buff sector count w)
   \<and> status_recorded (SD_ReadMultiBlocks (Some h) buff sector count w)
   \<and> status_recorded (SD_WriteMultiBlocks (Some h) buff sector count w)
   \<and> status_recorded (SD_Sync (Some h) w)
   \<and> (hspi_arg \<noteq> NULL \<and> cs_port_arg \<noteq> NULL \<longrightarrow>
        status_recorded (SD_Init (Some h) hspi_arg cs_port_arg cs_pin_arg use_dma_arg w))
   \<and> (hspi_arg = NULL \<or> cs_port_arg = NULL \<longrightarrow>
        SD_Init (Some h) hspi_arg cs_port_arg cs_pin_arg use_dma_arg w = (SD_PARAM, Some h, w))"
  by (intro conjI impI recorded_SD_SPI_Init recorded_SD_ReadBlocks recorded_SD_WriteBlocks
      recorded_SD_ReadMultiBlocks recorded_SD_WriteMultiBlocks recorded_SD_Sync)
     (simp_all add: recorded_SD_Init SD_Init_param)

theorem last_status_is_returned_status_witness:
  "status_recorded (SD_SPI_Init (Some ready_handle) (card []))
   \<and> status_recorded (SD_ReadBlocks (Some ready_handle) 0x20001000 100 1 (card []))
   \<and> status_recorded (SD_WriteBlocks (Some ready_handle) 0x20001000 100 1 (card []))
   \<and> status_recorded (SD_ReadMultiBlocks (Some ready_handle) 0x20001000 100 1 (card []))
   \<and> status_recorded (SD_WriteMultiBlocks (Some ready_handle) 0x20001000 100 1 (card []))
   \<and> status_recorded (SD_Sync (Some ready_handle) (card []))
   \<and> (0x40013000 :: ptr) \<noteq> NULL \<and> (0x40020000 :: ptr) \<noteq> NULL
   \<and> status_recorded (SD_Init (Some ready_handle) 0x40013000 0x40020000 0x0010 False (card []))
   \<and> SD_Init (Some ready_handle) NULL 0x40020000 0x0010 False (card [])
        = (SD_PARAM, Some ready_handle, card [])"
  using last_status_is_returned_status
      [of ready_handle "card []" "0x20001000" 100 1 "0x40013000" "0x40020000" "0x0010" False]
    last_status_is_returned_status
      [of ready_handle "card []" "0x20001000" 100 1 NULL "0x40020000" "0x0010" False]
  by (simp add: NULL_def)

text \<open>
  C9 as it is written fails for \<^verbatim>\<open>SD_Init\<close>: called on a handle whose \<open>last_status\<close> is
  \<^verbatim>\<open>SD_OK\<close> with a null SPI handle, it returns \<^verbatim>\<open>SD_PARAM\<close> and \<open>last_status\<close> is still
  \<^verbatim>\<open>SD_OK\<close>.
\<close>

theorem last_status_is_returned_status_counterexample:
  "fst (SD_Init (Some ready_handle) NULL 0x40020000 0x0010 False (card [])) = SD_PARAM
   \<and> map_option last_status (fst (snd (SD_Init (Some ready_handle) NULL 0x40020000 0x0010 False (card []))))
        = Some SD_OK
   \<and> \<not> status_recorded (SD_Init (Some ready_handle) NULL 0x40020000 0x0010 False (card []))"
  by (simp add: SD_Init_def status_recorded_def ready_handle_def zero_handle_def)

section \<open>Invalid arguments\<close>

text \<open>
  C8. \<^verbatim>\<open>SD_ReadBlocks\<close> and \<^verbatim>\<open>SD_WriteBlocks\<close> called with a null buffer or with
  \<open>count = 0\<close> return \<^verbatim>\<open>SD_PARAM\<close> and leave the world as it was: no SPI transfer, no
  chip-select write, nothing added to the trace.
\<close>

theorem param_leaves_bus_untouched:
  assumes "buff = NULL \<or> count = 0"
  shows "fst (SD_ReadBlocks sd_handle buff sector count w) = SD_PARAM
       \<and> snd (snd (SD_ReadBlocks sd_handle buff sector count w)) = w
       \<and> fst (SD_WriteBlocks sd_handle buff sector count w) = SD_PARAM
       \<and> snd (snd (SD_WriteBlocks sd_handle buff sector count w)) = w"
  using assms
  by (auto simp: SD_ReadBlocks_def SD_WriteBlocks_def return_recorded_def SD_RecordStatus_def
      split: option.splits)

theorem param_leaves_bus_untouched_witness:
  "((0x20001000 :: ptr) = NULL \<or> (0 :: 32 word) = 0)
   \<and> fst (SD_ReadBlocks (Some ready_handle) 0x20001000 100 0 (card [])) = SD_PARAM
   \<and> snd (snd (SD_ReadBlocks (Some ready_handle) 0x20001000 100 0 (card []))) = card []
   \<and> (NULL = NULL \<or> (1 :: 32 word) = 0)
   \<and> fst (SD_WriteBlocks (Some ready_handle) NULL 100 1 (card [])) = SD_PARAM
   \<and> snd (snd (SD_WriteBlocks (Some ready_handle) NULL 100 1 (card []))) = card []
   \<and> trace (snd (snd (SD_WriteBlocks (Some ready_handle) NULL 100 1 (card [])))) = []"
  using param_leaves_bus_untouched [of "0x20001000" 0 "Some ready_handle" 100 "card []"]
    param_leaves_bus_untouched [of NULL 1 "Some ready_handle" 100 "card []"]
  by (simp add: card_def)

section \<open>Statistics\<close>

lemma counters_finish: "counters_after (finish r) = Some (counters (fst (snd r)))"
  by (simp add: finish_def)

lemma counters_read_early:
  assumes "\<not> passes_guards h buff count w"
  shows "counters_after (SD_ReadBlocks (Some h) buff sector count w) = Some (counters h)"
proof -
  consider "buff = NULL \<or> count = 0"
    | "buff \<noteq> NULL" "count \<noteq> 0" "\<not> SD_IsCardPresent (Some h) w"
    | "buff \<noteq> NULL" "count \<noteq> 0" "SD_IsCardPresent (Some h) w" "fst (SD_Lock h w) \<noteq> SD_OK"
    | "buff \<noteq> NULL" "count \<noteq> 0" "SD_IsCardPresent (Some h) w" "fst (SD_Lock h w) = SD_OK"
      "\<not> initialized h"
    using assms unfolding passes_guards_def by blast
  then show ?thesis
  proof cases
    case 1
    then show ?thesis by (simp add: SD_ReadBlocks_param)
  next
    case 2
    then show ?thesis by (simp add: SD_ReadBlocks_no_media) (simp add: counters_def)
  next
    case 3
    then show ?thesis by (simp add: SD_ReadBlocks_lock_failed)
  next
    case 4
    then show ?thesis by (simp add: SD_ReadBlocks_uninitialized)
  qed
qed

lemma counters_read_run:
  assumes "passes_guards h buff count w"
  shows "counters_after (SD_ReadBlocks (Some h) buff sector count w)
       = Some (counters (counted_read h count))"
proof -
  let ?r = "if count = 1
            then read_retry_loop (counted_read h count) 0 buff (block_address h sector) SD_OK
                   (snd (SD_Lock h w))
            else SD_ReadMultiBlocksInternal (counted_read h count) buff sector count
                   (snd (SD_Lock h w))"
  have "frame (fst (snd ?r)) = frame (counted_read h count)"
    by simp
  then have "counters (fst (snd ?r)) = counters (counted_read h count)"
    by (rule counters_frame)
  then show ?thesis
    by (simp only: SD_ReadBlocks_run [OF assms] counters_finish)
qed

lemma counters_write_early:
  assumes "\<not> passes_guards h buff count w"
  shows "counters_after (SD_WriteBlocks (Some h) buff sector count w) = Some (counters h)"
proof -
  consider "buff = NULL \<or> count = 0"
    | "buff \<noteq> NULL" "count \<noteq> 0" "\<not> SD_IsCardPresent (Some h) w"
    | "buff \<noteq> NULL" "count \<noteq> 0" "SD_IsCardPresent (Some h) w" "fst (SD_Lock h w) \<noteq> SD_OK"
    | "buff \<noteq> NULL" "count \<noteq> 0" "SD_IsCardPresent (Some h) w" "fst (SD_Lock h w) = SD_OK"
      "\<not> initialized h"
    using assms unfolding passes_guards_def by blast
  then show ?thesis
  proof cases
    case 1
    then show ?thesis by (simp add: SD_WriteBlocks_param)
  next
    case 2
    then show ?thesis by (simp add: SD_WriteBlocks_no_media) (simp add: counters_def)
  next
    case 3
    then show ?thesis by (simp add: SD_WriteBlocks_lock_failed)
  next
    case 4
    then show ?thesis by (simp add: SD_WriteBlocks_uninitialized)
  qed
qed

lemma counters_write_run:
  assumes "passes_guards h buff count w"
  shows "counters_after (SD_WriteBlocks (Some h) buff sector count w)
       = Some (counters (counted_write h count))"
proof -
  let ?r = "if count = 1
            then write_retry_loop (counted_write h count) 0 buff (block_address h sector) SD_OK
                   (snd (SD_Lock h w))
            else SD_WriteMultiBlocksInternal (counted_write h count) buff sector count
                   (snd (SD_Lock h w))"
  have "frame (fst (snd ?r)) = frame (counted_write h count)"
    by simp
  then have "counters (fst (snd ?r)) = counters (counted_write h count)"
    by (rule counters_frame)
  then show ?thesis
    by (simp only: SD_WriteBlocks_run [OF assms] counters_finish)
qed

text \<open>
  C2, as amended. A call of \<^verbatim>\<open>SD_ReadBlocks\<close> (of \<^verbatim>\<open>SD_WriteBlocks\<close>) on a non-null handle
  that passes the argument check, the card-presence check, the lock and the
  \<open>initialized\<close> check adds 1 to \<open>read_ops\<close> (\<open>write_ops\<close>) and \<open>count\<close> to \<open>read_blocks\<close>
  (\<open>write_blocks\<close>), in 32-bit arithmetic, whatever the transfer returns; a call that
  returns at one of these checks leaves the four counters as they were.
\<close>

theorem counters_count_transfers_only:
  "counters_after (SD_ReadBlocks (Some h) buff sector count w)
     = Some (if passes_guards h buff count w
             then (read_ops (stats h) + 1, read_blocks (stats h) + count,
                   write_ops (stats h), write_blocks (stats h))
             else counters h)
   \<and> counters_after (SD_WriteBlocks (Some h) buff sector count w)
     = Some (if passes_guards h buff count w
             then (read_ops (stats h), read_blocks (stats h),
                   write_ops (stats h) + 1, write_blocks (stats h) + count)
             else counters h)"
  using counters_read_early [of h buff count w sector] counters_read_run [of h buff count w sector]
    counters_write_early [of h buff count w sector] counters_write_run [of h buff count w sector]
  by (simp add: counters_def counted_read_def counted_write_def)

lemma ready_counters: "counters ready_handle = (0, 0, 0, 0)"
  by (simp add: counters_def ready_handle_def zero_handle_def zero_stats_def)

text \<open>
  C2 as it is written fails on every early return: a read with \<open>count = 0\<close> returns
  \<^verbatim>\<open>SD_PARAM\<close> and a write on a handle that is not initialized returns \<^verbatim>\<open>SD_ERROR\<close>, and
  in both cases the four counters are what they were.
\<close>

theorem counters_count_transfers_only_counterexample:
  "fst (SD_ReadBlocks (Some ready_handle) 0x20001000 100 0 (card [])) = SD_PARAM
   \<and> counters_after (SD_ReadBlocks (Some ready_handle) 0x20001000 100 0 (card []))
        = Some (counters ready_handle)
   \<and> fst (SD_WriteBlocks (Some (ready_handle\<lparr>initialized := False\<rparr>)) 0x20001000 100 1 (card []))
        = SD_ERROR
   \<and> counters_after (SD_WriteBlocks (Some (ready_handle\<lparr>initialized := False\<rparr>)) 0x20001000 100 1 (card []))
        = Some (counters ready_handle)"
  by code_simp

theorem counters_count_transfers_only_witness:
  "passes_guards ready_handle 0x20001000 1 (card [])
   \<and> counters_after (SD_ReadBlocks (Some ready_handle) 0x20001000 100 1 (card [])) = Some (1, 1, 0, 0)
   \<and> counters_after (SD_WriteBlocks (Some ready_handle) 0x20001000 100 1 (card [])) = Some (0, 0, 1, 1)
   \<and> \<not> passes_guards ready_handle 0x20001000 0 (card [])
   \<and> counters_after (SD_ReadBlocks (Some ready_handle) 0x20001000 100 0 (card [])) = Some (0, 0, 0, 0)"
proof -
  have g: "passes_guards ready_handle 0x20001000 1 (card [])"
    "\<not> passes_guards ready_handle 0x20001000 0 (card [])"
    by (simp_all add: passes_guards_def ready_handle_def zero_handle_def card_def
        SD_IsCardPresent_def SD_Lock_def NULL_def)
  have s: "stats ready_handle = zero_stats"
    by (simp add: ready_handle_def zero_handle_def)
  show ?thesis
    using counters_count_transfers_only [of ready_handle "0x20001000" 100 1 "card []"]
      counters_count_transfers_only [of ready_handle "0x20001000" 100 0 "card []"]
    by (simp add: g ready_counters s zero_stats_def)
qed

section \<open>The card-presence gate\<close>

lemma return_recorded_simps [simp]:
  "fst (return_recorded (Some h) st w) = st"
  "initialized_after (return_recorded (Some h) st w) = Some (initialized h)"
  "snd (snd (return_recorded (Some h) st w)) = w"
  by (simp_all add: return_recorded_def SD_RecordStatus_def initialized_after_def)

lemma initialized_finish: "initialized_after (finish r) = Some (initialized (fst (snd r)))"
  by (simp add: finish_def)

lemma gate_blocks:
  assumes param: "buff = NULL \<or> count = 0 \<Longrightarrow> r = return_recorded (Some h) SD_PARAM w"
    and absent: "buff \<noteq> NULL \<Longrightarrow> count \<noteq> 0 \<Longrightarrow> \<not> SD_IsCardPresent (Some h) w \<Longrightarrow>
      r = return_recorded (Some (h\<lparr>initialized := False\<rparr>)) SD_NO_MEDIA w"
    and rest: "buff \<noteq> NULL \<Longrightarrow> count \<noteq> 0 \<Longrightarrow> SD_IsCardPresent (Some h) w \<Longrightarrow>
      initialized_after r = Some (initialized h)"
  shows "presence_gate (buff \<noteq> NULL \<and> count \<noteq> 0) h w r"
proof -
  consider "buff = NULL \<or> count = 0"
    | "buff \<noteq> NULL" "count \<noteq> 0" "\<not> SD_IsCardPresent (Some h) w"
    | "buff \<noteq> NULL" "count \<noteq> 0" "SD_IsCardPresent (Some h) w"
    by blast
  then show ?thesis
  proof cases
    case 1
    then show ?thesis using param by (auto simp: presence_gate_def)
  next
    case 2
    then show ?thesis using absent by (simp add: presence_gate_def)
  next
    case 3
    then show ?thesis using rest by (simp add: presence_gate_def)
  qed
qed

lemma initialized_frame: "frame h' = frame h \<Longrightarrow> initialized h' = initialized h"
  by (rule frame_fields(2))

lemma initialized_read_present:
  assumes "buff \<noteq> NULL" "count \<noteq> 0" "SD_IsCardPresent (Some h) w"
  shows "initialized_after (SD_ReadBlocks (Some h) buff sector count w) = Some (initialized h)"
proof -
  consider "fst (SD_Lock h w) \<noteq> SD_OK" | "fst (SD_Lock h w) = SD_OK" "\<not> initialized h"
    | "passes_guards h buff count w"
    using assms unfolding passes_guards_def by blast
  then show ?thesis
  proof cases
    case 1
    then show ?thesis using assms by (simp add: SD_ReadBlocks_lock_failed)
  next
    case 2
    then show ?thesis using assms by (simp add: SD_ReadBlocks_uninitialized)
  next
    case 3
    let ?r = "if count = 1
              then read_retry_loop (counted_read h count) 0 buff (block_address h sector) SD_OK
                     (snd (SD_Lock h w))
              else SD_ReadMultiBlocksInternal (counted_read h count) buff sector count
                     (snd (SD_Lock h w))"
    have "frame (fst (snd ?r)) = frame (counted_read h count)"
      by simp
    then have "initialized (fst (snd ?r)) = initialized (counted_read h count)"
      by (rule initialized_frame)
    then show ?thesis
      by (simp only: SD_ReadBlocks_run [OF 3] initialized_finish) (simp add: counted_read_def)
  qed
qed

lemma initialized_write_present:
  assumes "buff \<noteq> NULL" "count \<noteq> 0" "SD_IsCardPresent (Some h) w"
  shows "initialized_after (SD_WriteBlocks (Some h) buff sector count w) = Some (initialized h)"
proof -
  consider "fst (SD_Lock h w) \<noteq> SD_OK" | "fst (SD_Lock h w) = SD_OK" "\<not> initialized h"
    | "passes_guards h buff count w"
    using assms unfolding passes_guards_def by blast
  then show ?thesis
  proof cases
    case 1
    then show ?thesis using assms by (simp add: SD_WriteBlocks_lock_failed)
  next
    case 2
    then show ?thesis using assms by (simp add: SD_WriteBlocks_uninitialized)
  next
    case 3
    let ?r = "if count = 1
              then write_retry_loop (counted_write h count) 0 buff (block_address h sector) SD_OK
                     (snd (SD_Lock h w))
              else SD_WriteMultiBlocksInternal (counted_write h count) buff sector count
                     (snd (SD_Lock h w))"
    have "frame (fst (snd ?r)) = frame (counted_write h count)"
      by simp
    then have "initialized (fst (snd ?r)) = initialized (counted_write h count)"
      by (rule initialized_frame)
    then show ?thesis
      by (simp only: SD_WriteBlocks_run [OF 3] initialized_finish) (simp add: counted_write_def)
  qed
qed


lemma SD_ReadMultiBlocks_run:
  "buff \<noteq> NULL \<Longrightarrow> count \<noteq> 0 \<Longrightarrow> SD_IsCardPresent (Some h) w \<Longrightarrow>
   fst (SD_Lock h w) = SD_OK \<Longrightarrow>
   SD_ReadMultiBlocks (Some h) buff sector count w
     = finish (SD_ReadMultiBlocksInternal (counted_read h count) buff sector count
                 (snd (SD_Lock h w)))"
  unfolding SD_ReadMultiBlocks_def finish_def counted_read_def
  by (simp add: case_prod_beta Let_def)

lemma SD_WriteMultiBlocks_run:
  "buff \<noteq> NULL \<Longrightarrow> count \<noteq> 0 \<Longrightarrow> SD_IsCardPresent (Some h) w \<Longrightarrow>
   fst (SD_Lock h w) = SD_OK \<Longrightarrow>
   SD_WriteMultiBlocks (Some h) buff sector count w
     = finish (SD_WriteMultiBlocksInternal (counted_write h count) buff sector count
                 (snd (SD_Lock h w)))"
  unfolding SD_WriteMultiBlocks_def finish_def counted_write_def
  by (simp add: case_prod_beta Let_def)

lemma initialized_read_multi_present:
  assumes "buff \<noteq> NULL" "count \<noteq> 0" "SD_IsCardPresent (Some h) w"
  shows "initialized_after (SD_ReadMultiBlocks (Some h) buff sector count w) = Some (initialized h)"
proof (cases "fst (SD_Lock h w) = SD_OK")
  case False
  then show ?thesis using assms by (simp add: SD_ReadMultiBlocks_lock_failed)
next
  case True
  let ?r = "SD_ReadMultiBlocksInternal (counted_read h count) buff sector count (snd (SD_Lock h w))"
  have "initialized (fst (snd ?r)) = initialized (counted_read h count)"
    by (rule initialized_frame) simp
  then show ?thesis
    by (simp only: SD_ReadMultiBlocks_run [OF assms True] initialized_finish)
       (simp add: counted_read_def)
qed

lemma initialized_write_multi_present:
  assumes "buff \<noteq> NULL" "count \<noteq> 0" "SD_IsCardPresent (Some h) w"
  shows "initialized_after (SD_WriteMultiBlocks (Some h) buff sector count w) = Some (initialized h)"
proof (cases "fst (SD_Lock h w) = SD_OK")
  case False
  then show ?thesis using assms by (simp add: SD_WriteMultiBlocks_lock_failed)
next
  case True
  let ?r = "SD_WriteMultiBlocksInternal (counted_write h count) buff sector count (snd (SD_Lock h w))"
  have "initialized (fst (snd ?r)) = initialized (counted_write h count)"
    by (rule initialized_frame) simp
  then show ?thesis
    by (simp only: SD_WriteMultiBlocks_run [OF assms True] initialized_finish)
       (simp add: counted_write_def)
qed

lemma SD_Sync_uninitialized:
  "\<not> initialized h \<Longrightarrow> SD_Sync (Some h) w = return_recorded (Some h) SD_ERROR w"
  unfolding SD_Sync_def by simp

lemma SD_Sync_no_media:
  "initialized h \<Longrightarrow> \<not> SD_IsCardPresent (Some h) w \<Longrightarrow>
   SD_Sync (Some h) w = return_recorded (Some (h\<lparr>initialized := False\<rparr>)) SD_NO_MEDIA w"
  unfolding SD_Sync_def by simp

lemma SD_Sync_present:
  "initialized h \<Longrightarrow> SD_IsCardPresent (Some h) w \<Longrightarrow>
   initialized_after (SD_Sync (Some h) w) = Some True"
  unfolding SD_Sync_def by (simp add: case_prod_beta)

lemma gate_sync: "presence_gate (initialized h) h w (SD_Sync (Some h) w)"
proof -
  consider "\<not> initialized h" | "initialized h" "\<not> SD_IsCardPresent (Some h) w"
    | "initialized h" "SD_IsCardPresent (Some h) w"
    by blast
  then show ?thesis
  proof cases
    case 1
    then show ?thesis by (simp add: presence_gate_def SD_Sync_uninitialized)
  next
    case 2
    then show ?thesis by (simp add: presence_gate_def SD_Sync_no_media)
  next
    case 3
    then show ?thesis by (simp add: presence_gate_def SD_Sync_present)
  qed
qed

text \<open>
  C3, as amended. On a non-null handle, \<^verbatim>\<open>SD_ReadBlocks\<close>, \<^verbatim>\<open>SD_WriteBlocks\<close>,
  \<^verbatim>\<open>SD_ReadMultiBlocks\<close> and \<^verbatim>\<open>SD_WriteMultiBlocks\<close> check the card presence once the
  buffer and the count have been accepted, and \<^verbatim>\<open>SD_Sync\<close> once the handle has been found
  initialized, before the lock is taken and before anything is sent: an absent card makes
  them clear \<open>initialized\<close> and return \<^verbatim>\<open>SD_NO_MEDIA\<close> with the world untouched. A call of one
  of these operations that returns another status leaves \<open>initialized\<close> as it was. Without
  a card-detect pin the card is reported present.
\<close>

theorem presence_gate_of_io:
  "presence_gate (buff \<noteq> NULL \<and> count \<noteq> 0) h w (SD_ReadBlocks (Some h) buff sector count w)
   \<and> presence_gate (buff \<noteq> NULL \<and> count \<noteq> 0) h w (SD_WriteBlocks (Some h) buff sector count w)
   \<and> presence_gate (buff \<noteq> NULL \<and> count \<noteq> 0) h w
        (SD_ReadMultiBlocks (Some h) buff sector count w)
   \<and> presence_gate (buff \<noteq> NULL \<and> count \<noteq> 0) h w
        (SD_WriteMultiBlocks (Some h) buff sector count w)
   \<and> presence_gate (initialized h) h w (SD_Sync (Some h) w)
   \<and> (\<not> has_cd h \<longrightarrow> SD_IsCardPresent (Some h) w)"
proof (intro conjI)
  show "presence_gate (buff \<noteq> NULL \<and> count \<noteq> 0) h w (SD_ReadBlocks (Some h) buff sector count w)"
    by (rule gate_blocks)
       (simp_all add: SD_ReadBlocks_param SD_ReadBlocks_no_media initialized_read_present)
  show "presence_gate (buff \<noteq> NULL \<and> count \<noteq> 0) h w (SD_WriteBlocks (Some h) buff sector count w)"
    by (rule gate_blocks)
       (simp_all add: SD_WriteBlocks_param SD_WriteBlocks_no_media initialized_write_present)
  show "presence_gate (buff \<noteq> NULL \<and> count \<noteq> 0) h w
          (SD_ReadMultiBlocks (Some h) buff sector count w)"
    by (rule gate_blocks)
       (simp_all add: SD_ReadMultiBlocks_param SD_ReadMultiBlocks_no_media
          initialized_read_multi_present)
  show "presence_gate (buff \<noteq> NULL \<and> count \<noteq> 0) h w
          (SD_WriteMultiBlocks (Some h) buff sector count w)"
    by (rule gate_blocks)
       (simp_all add: SD_WriteMultiBlocks_param SD_WriteMultiBlocks_no_media
          initialized_write_multi_present)
  show "presence_gate (initialized h) h w (SD_Sync (Some h) w)"
    by (rule gate_sync)
  show "\<not> has_cd h \<longrightarrow> SD_IsCardPresent (Some h) w"
    by (simp add: SD_IsCardPresent_def)
qed

lemma absent_handle_facts:
  "\<not> SD_IsCardPresent (Some absent_handle) (card [])" "initialized absent_handle"
  "has_cd absent_handle" "\<not> has_cd ready_handle"
  by (simp_all add: SD_IsCardPresent_def absent_handle_def ready_handle_def zero_handle_def card_def)

theorem presence_gate_of_io_witness:
  "has_cd absent_handle \<and> \<not> SD_IsCardPresent (Some absent_handle) (card [])
   \<and> fst (SD_ReadBlocks (Some absent_handle) 0x20001000 100 1 (card [])) = SD_NO_MEDIA
   \<and> initialized_after (SD_ReadBlocks (Some absent_handle) 0x20001000 100 1 (card [])) = Some False
   \<and> snd (snd (SD_ReadBlocks (Some absent_handle) 0x20001000 100 1 (card []))) = card []
   \<and> fst (SD_WriteBlocks (Some absent_handle) 0x20001000 100 1 (card [])) = SD_NO_MEDIA
   \<and> fst (SD_ReadMultiBlocks (Some absent_handle) 0x20001000 100 1 (card [])) = SD_NO_MEDIA
   \<and> fst (SD_WriteMultiBlocks (Some absent_handle) 0x20001000 100 1 (card [])) = SD_NO_MEDIA
   \<and> fst (SD_Sync (Some absent_handle) (card [])) = SD_NO_MEDIA
   \<and> initialized_after (SD_Sync (Some absent_handle) (card [])) = Some False
   \<and> fst (SD_ReadBlocks (Some ready_handle) 0x20001000 100 1 (card [])) \<noteq> SD_NO_MEDIA
   \<and> initialized_after (SD_ReadBlocks (Some ready_handle) 0x20001000 100 1 (card [])) = Some True
   \<and> \<not> has_cd ready_handle \<and> SD_IsCardPresent (Some ready_handle) (card [])"
proof -
  have ne: "(0x20001000 :: ptr) \<noteq> NULL" "(1 :: 32 word) \<noteq> 0"
    by (simp_all add: NULL_def)
  have st: "fst (SD_ReadBlocks (Some ready_handle) 0x20001000 100 1 (card [])) = SD_ERROR"
    by code_simp
  show ?thesis
    using presence_gate_of_io [of "0x20001000" 1 absent_handle "card []" 100]
      presence_gate_of_io [of "0x20001000" 1 ready_handle "card []" 100]
    by (simp add: presence_gate_def absent_handle_facts ne st)
       (simp add: ready_handle_def zero_handle_def)
qed

text \<open>
  C3 as it is written fails: with a card-detect pin that reports no card, a read with
  \<open>count = 0\<close> returns \<^verbatim>\<open>SD_PARAM\<close> and leaves \<open>initialized\<close> set, and \<^verbatim>\<open>SD_Sync\<close> on a
  handle that is not initialized returns \<^verbatim>\<open>SD_ERROR\<close>; in both the presence is not looked at.
\<close>

theorem presence_gate_of_io_counterexample:
  "has_cd absent_handle \<and> \<not> SD_IsCardPresent (Some absent_handle) (card [])
   \<and> fst (SD_ReadBlocks (Some absent_handle) 0x20001000 100 0 (card [])) = SD_PARAM
   \<and> initialized_after (SD_ReadBlocks (Some absent_handle) 0x20001000 100 0 (card [])) = Some True
   \<and> fst (SD_Sync (Some (absent_handle\<lparr>initialized := False\<rparr>)) (card [])) = SD_ERROR"
  by (simp add: absent_handle_facts SD_ReadBlocks_param SD_Sync_uninitialized)

section \<open>Commands on the wire\<close>

lemma commands_of_append [simp]: "commands_of (xs @ ys) = commands_of xs @ commands_of ys"
  by (induction xs rule: commands_of.induct) simp_all

lemma cmds_emit [simp]: "cmds (emit e w) = cmds w @ commands_of [e]"
  by (simp add: cmds_def emit_def)

lemma cmds_update [simp]:
  "cmds (w\<lparr>tick := t\<rparr>) = cmds w" "cmds (w\<lparr>spi_pos := n\<rparr>) = cmds w"
  by (simp_all add: cmds_def)

lemma cmds_next_spi [simp]: "cmds (snd (next_spi w)) = cmds w"
  by (simp add: next_spi_def)

lemma cmds_SD_SPI_Transmit [simp]: "cmds (snd (snd (SD_SPI_Transmit h b n d w))) = cmds w"
  by (simp add: SD_SPI_Transmit_def tx_event_def Let_def case_prod_beta
      split: dma_irq.split txsrc.split)

lemma cmds_SD_SPI_TransmitReceive [simp]:
  "cmds (snd (snd (snd (SD_SPI_TransmitReceive h b n d w)))) = cmds w"
  by (simp add: SD_SPI_TransmitReceive_def rx_event_def Let_def case_prod_beta
      split: dma_irq.split rxdst.split)

lemma cmds_SD_TransmitByte [simp]: "cmds (snd (SD_TransmitByte h b w)) = cmds w"
  by (simp add: SD_TransmitByte_def case_prod_beta)

lemma cmds_SD_ReceiveByteTimeout [simp]:
  "cmds (snd (snd (SD_ReceiveByteTimeout h d t w))) = cmds w"
  by (simp add: SD_ReceiveByteTimeout_def Let_def case_prod_beta)

lemma cmds_SD_ReceiveByte [simp]: "cmds (snd (snd (SD_ReceiveByte h d w))) = cmds w"
  by (simp add: SD_ReceiveByte_def)

lemma cmds_select [simp]:
  "cmds (SD_Select h w) = cmds w" "cmds (SD_Deselect h w) = cmds w"
  "cmds (deselect_and_clock h w) = cmds w" "cmds (SD_BackoffDelay w) = cmds w"
  "cmds (SD_Unlock h w) = cmds w" "cmds (snd (SD_Lock h w)) = cmds w"
  by (simp_all add: SD_Select_def SD_Deselect_def deselect_and_clock_def SD_BackoffDelay_def
      SD_Unlock_def SD_Lock_def)

lemma cmds_wait_loop [simp]: "cmds (snd (wait_loop e h t io w)) = cmds w"
proof (induction e h t io w rule: wait_loop.induct)
  case (1 expected h timeout io_timeout w)
  let ?r = "SD_ReceiveByteTimeout h 0 io_timeout w"
  show ?case
  proof (cases "fst ?r = SD_OK \<and> fst (snd ?r) \<noteq> expected
                \<and> HAL_GetTick (SD_BackoffDelay (snd (snd ?r))) < timeout")
    case True
    then show ?thesis
      using "1.IH" [OF prod.collapse prod.collapse _ _ refl]
      by (subst wait_loop.simps) (simp add: case_prod_beta Let_def)
  next
    case False
    then show ?thesis
      by (subst wait_loop.simps) (auto simp: case_prod_beta Let_def)
  qed
qed

lemma cmds_SD_WaitReady [simp]:
  "cmds (snd (SD_WaitReady h t w)) = cmds w" "cmds (snd (SD_WaitDataToken h t w)) = cmds w"
  by (simp_all add: SD_WaitReady_def SD_WaitDataToken_def)

lemma cmds_transmit_seq [simp]: "cmds (snd (transmit_seq h bs w)) = cmds w"
  by (induction bs arbitrary: w) (simp_all add: case_prod_beta)

lemma cmds_r1_poll [simp]: "cmds (snd (snd (r1_poll h n resp response w))) = cmds w"
proof (induction h n resp response w rule: r1_poll.induct)
  case (1 h retry resp response w)
  let ?r = "SD_ReceiveByte h resp w"
  show ?case
  proof (cases "retry < 10 \<and> fst ?r = SD_OK \<and> fst (snd ?r) AND 0x80 \<noteq> 0")
    case True
    then show ?thesis
      using "1.IH" [OF _ prod.collapse prod.collapse]
      by (subst r1_poll.simps) (simp add: case_prod_beta)
  next
    case False
    then show ?thesis
      by (subst r1_poll.simps) (auto simp: case_prod_beta)
  qed
qed

lemma cmds_SD_SendCommand [simp]:
  "cmds (snd (snd (SD_SendCommand h c a crc r w))) = cmds w @ [(c, a, crc)]"
  by (simp add: SD_SendCommand_def case_prod_beta)


lemma cmds_SD_ReadSingleBlockInternal [simp]:
  "cmds (snd (snd (SD_ReadSingleBlockInternal h buff address w))) = cmds w @ [(CMD17, address, 0xFF)]"
  by (simp add: SD_ReadSingleBlockInternal_def case_prod_beta)

lemma cmds_SD_WriteSingleBlockInternal [simp]:
  "cmds (snd (snd (SD_WriteSingleBlockInternal h buff address w))) = cmds w @ [(CMD24, address, 0xFF)]"
  by (simp add: SD_WriteSingleBlockInternal_def case_prod_beta Let_def)

lemma cmds_read_block_step [simp]:
  "cmds (snd (snd (read_block_step h buff dma w))) = cmds w"
  by (simp add: read_block_step_def case_prod_beta)

lemma cmds_write_block_step [simp]:
  "cmds (snd (snd (snd (write_block_step h buff dma r w)))) = cmds w"
  by (simp add: write_block_step_def case_prod_beta Let_def)

lemma cmds_read_blocks_loop [simp]:
  "cmds (snd (snd (read_blocks_loop h i count buff dma st w))) = cmds w"
proof (induction h i count buff dma st w rule: read_blocks_loop.induct)
  case (1 h i count buff dma status w)
  show ?case
  proof (cases "i < count \<and> fst (read_block_step h buff dma w) = SD_OK")
    case True
    then show ?thesis
      using "1.IH" [OF _ prod.collapse prod.collapse]
      by (subst read_blocks_loop.simps) (simp add: case_prod_beta)
  next
    case False
    then show ?thesis
      by (subst read_blocks_loop.simps) (auto simp: case_prod_beta)
  qed
qed

lemma cmds_write_blocks_loop [simp]:
  "cmds (snd (snd (write_blocks_loop h i count buff dma st r w))) = cmds w"
proof (induction h i count buff dma st r w rule: write_blocks_loop.induct)
  case (1 h i count buff dma status response w)
  show ?case
  proof (cases "i < count \<and> fst (write_block_step h buff dma response w) = SD_OK")
    case True
    then show ?thesis
      using "1.IH" [OF _ prod.collapse prod.collapse prod.collapse]
      by (subst write_blocks_loop.simps) (simp add: case_prod_beta)
  next
    case False
    then show ?thesis
      by (subst write_blocks_loop.simps) (auto simp: case_prod_beta)
  qed
qed

lemma cmds_SD_ReadMultiBlocksInternal:
  assumes "buff \<noteq> NULL" "count \<noteq> 0" "initialized h"
  shows "cmds (snd (snd (SD_ReadMultiBlocksInternal h buff sector count w)))
       = cmds w @ (SD_CMD18, block_address h sector, 0xFF)
           # (if accepted (SD_SendCommand h SD_CMD18 (block_address h sector) 0xFF 0xFF (SD_Select h w))
              then [(SD_CMD12, 0, 0xFF)] else [])"
  using assms
  by (simp add: SD_ReadMultiBlocksInternal_def accepted_def block_address_def case_prod_beta Let_def)

lemma cmds_SD_WriteMultiBlocksInternal:
  assumes "buff \<noteq> NULL" "count \<noteq> 0" "initialized h"
  shows "cmds (snd (snd (SD_WriteMultiBlocksInternal h buff sector count w)))
       = cmds w @ [(SD_CMD25, block_address h sector, 0xFF)]"
  using assms
  by (simp add: SD_WriteMultiBlocksInternal_def block_address_def case_prod_beta Let_def)

lemma issues_same: "cmds w' = cmds w \<Longrightarrow> issues S w w'"
  by (simp add: issues_def)

lemma issues_trans: "issues S w w1 \<Longrightarrow> issues S w1 w2 \<Longrightarrow> issues S w w2"
  by (auto simp: issues_def)

lemma issues_one: "cmds w' = cmds w @ [x] \<Longrightarrow> x \<in> S \<Longrightarrow> issues S w w'"
  by (simp add: issues_def)

lemma issues_list: "cmds w' = cmds w @ xs \<Longrightarrow> set xs \<subseteq> S \<Longrightarrow> issues S w w'"
  by (simp add: issues_def)

lemma issues_new_commands: "issues S w w' \<Longrightarrow> set (new_commands w w') \<subseteq> S"
  by (auto simp: issues_def new_commands_def)

lemma issues_cmds: "issues S w w' \<Longrightarrow> cmds w' = cmds w @ new_commands w w'"
  by (auto simp: issues_def new_commands_def)

lemma read_retry_loop_attempts:
  "attempt \<le> Suc SD_MAX_RETRIES \<Longrightarrow>
   read_retry_loop h attempt buff address st w
     = attempts (Suc SD_MAX_RETRIES - attempt) (\<lambda>h w. SD_ReadSingleBlockInternal h buff address w) h st w"
proof (induction h attempt buff address st w rule: read_retry_loop.induct)
  case (1 h attempt buff address status w)
  show ?case
  proof (cases "attempt \<le> SD_MAX_RETRIES")
    case False
    with "1.prems" have "attempt = Suc SD_MAX_RETRIES" by simp
    then show ?thesis
      by (subst read_retry_loop.simps) simp
  next
    case True
    then have n: "Suc SD_MAX_RETRIES - attempt = Suc (SD_MAX_RETRIES - attempt)"
      by simp
    let ?r = "SD_ReadSingleBlockInternal h buff address w"
    show ?thesis
    proof (cases "fst ?r = SD_OK")
      case ok: True
      then show ?thesis
        using True by (subst read_retry_loop.simps) (simp add: n case_prod_beta)
    next
      case False
      then show ?thesis
        using True "1.IH" [OF True prod.collapse prod.collapse False]
        by (subst read_retry_loop.simps) (simp add: n case_prod_beta)
    qed
  qed
qed

lemma write_retry_loop_attempts:
  "attempt \<le> Suc SD_MAX_RETRIES \<Longrightarrow>
   write_retry_loop h attempt buff address st w
     = attempts (Suc SD_MAX_RETRIES - attempt) (\<lambda>h w. SD_WriteSingleBlockInternal h buff address w) h st w"
proof (induction h attempt buff address st w rule: write_retry_loop.induct)
  case (1 h attempt buff address status w)
  show ?case
  proof (cases "attempt \<le> SD_MAX_RETRIES")
    case False
    with "1.prems" have "attempt = Suc SD_MAX_RETRIES" by simp
    then show ?thesis
      by (subst write_retry_loop.simps) simp
  next
    case True
    then have n: "Suc SD_MAX_RETRIES - attempt = Suc (SD_MAX_RETRIES - attempt)"
      by simp
    let ?r = "SD_WriteSingleBlockInternal h buff address w"
    show ?thesis
    proof (cases "fst ?r = SD_OK")
      case ok: True
      then show ?thesis
        using True by (subst write_retry_loop.simps) (simp add: n case_prod_beta)
    next
      case False
      then show ?thesis
        using True "1.IH" [OF True prod.collapse prod.collapse False]
        by (subst write_retry_loop.simps) (simp add: n case_prod_beta)
    qed
  qed
qed

lemma attempts_made_le: "attempts_made n transfer h w \<le> n"
  by (induction n arbitrary: h w) (auto simp: case_prod_beta)

lemma attempts_made_pos: "0 < n \<Longrightarrow> 0 < attempts_made n transfer h w"
  by (cases n) (auto simp: case_prod_beta)


lemma cmds_attempts:
  assumes "\<And>h w. cmds (snd (snd (transfer h w))) = cmds w @ [x]"
  shows "cmds (snd (snd (attempts n transfer h st w)))
       = cmds w @ replicate (attempts_made n transfer h w) x"
proof (induction n arbitrary: h st w)
  case 0
  show ?case by simp
next
  case (Suc n)
  show ?case
    using Suc.IH assms
    by (simp add: case_prod_beta replicate_append_same [symmetric] del: replicate.simps)
       (simp add: replicate_append_same)
qed

lemma frame_attempts:
  assumes "\<And>h w. frame (fst (snd (transfer h w))) = frame h"
  shows "frame (fst (snd (attempts n transfer h st w))) = frame h"
  using assms by (induction n arbitrary: h st w) (simp_all add: case_prod_beta)

lemma cmds_read_retry_loop:
  "cmds (snd (snd (read_retry_loop h 0 buff address st w)))
     = cmds w @ replicate (read_attempts h buff address w) (CMD17, address, 0xFF)"
  by (simp add: read_retry_loop_attempts read_attempts_def cmds_attempts del: attempts.simps
      attempts_made.simps)

lemma cmds_write_retry_loop:
  "cmds (snd (snd (write_retry_loop h 0 buff address st w)))
     = cmds w @ replicate (write_attempts h buff address w) (CMD24, address, 0xFF)"
  by (simp add: write_retry_loop_attempts write_attempts_def cmds_attempts del: attempts.simps
      attempts_made.simps)

lemma read_attempts_bounds:
  "1 \<le> read_attempts h buff address w" "read_attempts h buff address w \<le> Suc SD_MAX_RETRIES"
  using attempts_made_pos [of "Suc SD_MAX_RETRIES"] attempts_made_le [of "Suc SD_MAX_RETRIES"]
  by (simp_all add: read_attempts_def Suc_le_eq del: attempts_made.simps)

lemma write_attempts_bounds:
  "1 \<le> write_attempts h buff address w" "write_attempts h buff address w \<le> Suc SD_MAX_RETRIES"
  using attempts_made_pos [of "Suc SD_MAX_RETRIES"] attempts_made_le [of "Suc SD_MAX_RETRIES"]
  by (simp_all add: write_attempts_def Suc_le_eq del: attempts_made.simps)

lemma issues_read_retry_loop:
  "issues {(CMD17, address, 0xFF)} w (snd (snd (read_retry_loop h 0 buff address st w)))"
  by (rule issues_list [OF cmds_read_retry_loop]) auto

lemma issues_write_retry_loop:
  "issues {(CMD24, address, 0xFF)} w (snd (snd (write_retry_loop h 0 buff address st w)))"
  by (rule issues_list [OF cmds_write_retry_loop]) auto

lemma issues_mono: "issues S w w' \<Longrightarrow> S \<subseteq> T \<Longrightarrow> issues T w w'"
  by (auto simp: issues_def)

lemma block_address_counted [simp]:
  "block_address (counted_read h count) sector = block_address h sector"
  "block_address (counted_write h count) sector = block_address h sector"
  by (simp_all add: block_address_def counted_read_def counted_write_def)

lemma issues_SD_ReadMultiBlocksInternal:
  "issues (read_commands (block_address h sector)) w
     (snd (snd (SD_ReadMultiBlocksInternal h buff sector count w)))"
proof (cases "buff \<noteq> NULL \<and> count \<noteq> 0 \<and> initialized h")
  case True
  then show ?thesis
    by (intro issues_list [OF cmds_SD_ReadMultiBlocksInternal]) (auto simp: read_commands_def)
next
  case False
  then show ?thesis
    by (intro issues_same) (auto simp: SD_ReadMultiBlocksInternal_def)
qed

lemma issues_SD_WriteMultiBlocksInternal:
  "issues (write_commands (block_address h sector)) w
     (snd (snd (SD_WriteMultiBlocksInternal h buff sector count w)))"
proof (cases "buff \<noteq> NULL \<and> count \<noteq> 0 \<and> initialized h")
  case True
  then show ?thesis
    by (intro issues_list [OF cmds_SD_WriteMultiBlocksInternal]) (simp_all add: write_commands_def)
next
  case False
  then show ?thesis
    by (intro issues_same) (auto simp: SD_WriteMultiBlocksInternal_def)
qed

lemma cmds_return_recorded [simp]:
  "cmds (world_after (return_recorded hp st w)) = cmds w"
  by (simp add: world_after_def return_recorded_def case_prod_beta)

lemma cmds_finish [simp]: "cmds (world_after (finish r)) = cmds (snd (snd r))"
  by (simp add: finish_def)

lemma issues_finish: "issues S w (snd (snd r)) \<Longrightarrow> issues S w (world_after (finish r))"
  by (simp add: issues_def)

lemma issues_SD_ReadBlocks:
  "issues (read_commands (block_address h sector)) w
     (world_after (SD_ReadBlocks (Some h) buff sector count w))"
proof (cases "passes_guards h buff count w")
  case True
  have a: "issues (read_commands (block_address h sector)) (snd (SD_Lock h w))
             (snd (snd (read_retry_loop (counted_read h count) 0 buff (block_address h sector)
                          SD_OK (snd (SD_Lock h w)))))"
    by (rule issues_mono [OF issues_read_retry_loop]) (simp add: read_commands_def)
  have b: "issues (read_commands (block_address h sector)) (snd (SD_Lock h w))
             (snd (snd (SD_ReadMultiBlocksInternal (counted_read h count) buff sector count
                          (snd (SD_Lock h w)))))"
    using issues_SD_ReadMultiBlocksInternal [of "counted_read h count" sector] by simp
  have l: "issues (read_commands (block_address h sector)) w (snd (SD_Lock h w))"
    by (rule issues_same) simp
  have ab: "issues (read_commands (block_address h sector)) (snd (SD_Lock h w))
      (snd (snd (if count = 1
                 then read_retry_loop (counted_read h count) 0 buff (block_address h sector)
                        SD_OK (snd (SD_Lock h w))
                 else SD_ReadMultiBlocksInternal (counted_read h count) buff sector count
                        (snd (SD_Lock h w)))))"
    using a b by (cases "count = 1") simp_all
  show ?thesis
    by (simp only: SD_ReadBlocks_run [OF True])
       (rule issues_finish, rule issues_trans [OF l ab])
next
  case False
  then consider "buff = NULL \<or> count = 0"
    | "buff \<noteq> NULL" "count \<noteq> 0" "\<not> SD_IsCardPresent (Some h) w"
    | "buff \<noteq> NULL" "count \<noteq> 0" "SD_IsCardPresent (Some h) w" "fst (SD_Lock h w) \<noteq> SD_OK"
    | "buff \<noteq> NULL" "count \<noteq> 0" "SD_IsCardPresent (Some h) w" "fst (SD_Lock h w) = SD_OK"
      "\<not> initialized h"
    unfolding passes_guards_def by blast
  then show ?thesis
  proof cases
    case 1
    then show ?thesis by (intro issues_same) (simp add: SD_ReadBlocks_param)
  next
    case 2
    then show ?thesis by (intro issues_same) (simp add: SD_ReadBlocks_no_media)
  next
    case 3
    then show ?thesis by (intro issues_same) (simp add: SD_ReadBlocks_lock_failed)
  next
    case 4
    then show ?thesis by (intro issues_same) (simp add: SD_ReadBlocks_uninitialized)
  qed
qed

lemma passes_guards_counted:
  "passes_guards h buff count w \<Longrightarrow>
   buff \<noteq> NULL \<and> count \<noteq> 0 \<and> initialized (counted_read h count)
   \<and> initialized (counted_write h count)"
  by (simp add: passes_guards_def counted_read_def counted_write_def)

lemma cmds_SD_ReadBlocks_run:
  assumes "passes_guards h buff count w"
  shows "cmds (world_after (SD_ReadBlocks (Some h) buff sector count w))
       = cmds w @ read_command_list (counted_read h count) buff sector count (snd (SD_Lock h w))"
  using passes_guards_counted [OF assms]
  by (simp only: SD_ReadBlocks_run [OF assms] cmds_finish)
     (simp add: read_command_list_def cmds_read_retry_loop cmds_SD_ReadMultiBlocksInternal)

lemma cmds_SD_WriteBlocks_run:
  assumes "passes_guards h buff count w"
  shows "cmds (world_after (SD_WriteBlocks (Some h) buff sector count w))
       = cmds w @ write_command_list (counted_write h count) buff sector count (snd (SD_Lock h w))"
  using passes_guards_counted [OF assms]
  by (simp only: SD_WriteBlocks_run [OF assms] cmds_finish)
     (simp add: write_command_list_def cmds_write_retry_loop cmds_SD_WriteMultiBlocksInternal)

lemma cmds_SD_ReadBlocks_early:
  assumes "\<not> passes_guards h buff count w"
  shows "cmds (world_after (SD_ReadBlocks (Some h) buff sector count w)) = cmds w"
proof -
  from assms consider "buff = NULL \<or> count = 0"
    | "buff \<noteq> NULL" "count \<noteq> 0" "\<not> SD_IsCardPresent (Some h) w"
    | "buff \<noteq> NULL" "count \<noteq> 0" "SD_IsCardPresent (Some h) w" "fst (SD_Lock h w) \<noteq> SD_OK"
    | "buff \<noteq> NULL" "count \<noteq> 0" "SD_IsCardPresent (Some h) w" "fst (SD_Lock h w) = SD_OK"
      "\<not> initialized h"
    unfolding passes_guards_def by blast
  then show ?thesis
  proof cases
    case 1
    then show ?thesis by (simp add: SD_ReadBlocks_param)
  next
    case 2
    then show ?thesis by (simp add: SD_ReadBlocks_no_media)
  next
    case 3
    then show ?thesis by (simp add: SD_ReadBlocks_lock_failed)
  next
    case 4
    then show ?thesis by (simp add: SD_ReadBlocks_uninitialized)
  qed
qed

lemma cmds_SD_WriteBlocks_early:
  assumes "\<not> passes_guards h buff count w"
  shows "cmds (world_after (SD_WriteBlocks (Some h) buff sector count w)) = cmds w"
proof -
  from assms consider "buff = NULL \<or> count = 0"
    | "buff \<noteq> NULL" "count \<noteq> 0" "\<not> SD_IsCardPresent (Some h) w"
    | "buff \<noteq> NULL" "count \<noteq> 0" "SD_IsCardPresent (Some h) w" "fst (SD_Lock h w) \<noteq> SD_OK"
    | "buff \<noteq> NULL" "count \<noteq> 0" "SD_IsCardPresent (Some h) w" "fst (SD_Lock h w) = SD_OK"
      "\<not> initialized h"
    unfolding passes_guards_def by blast
  then show ?thesis
  proof cases
    case 1
    then show ?thesis by (simp add: SD_WriteBlocks_param)
  next
    case 2
    then show ?thesis by (simp add: SD_WriteBlocks_no_media)
  next
    case 3
    then show ?thesis by (simp add: SD_WriteBlocks_lock_failed)
  next
    case 4
    then show ?thesis by (simp add: SD_WriteBlocks_uninitialized)
  qed
qed

lemma new_commands_append: "cmds w' = cmds w @ cs \<Longrightarrow> new_commands w w' = cs"
  by (simp add: new_commands_def)

lemma addressed_read_command_list:
  "addressed_at (block_address h sector) (read_command_list h buff sector count w)"
  by (simp add: addressed_at_def read_command_list_def is_block_command_def list_all_iff
      SD_CMD12_def CMD17_def SD_CMD18_def CMD24_def SD_CMD25_def)

lemma addressed_write_command_list:
  "addressed_at (block_address h sector) (write_command_list h buff sector count w)"
  by (simp add: addressed_at_def write_command_list_def is_block_command_def list_all_iff)

lemma new_commands_SD_ReadBlocks:
  "new_commands w (world_after (SD_ReadBlocks (Some h) buff sector count w))
     = (if passes_guards h buff count w
        then read_command_list (counted_read h count) buff sector count (snd (SD_Lock h w))
        else [])"
  using cmds_SD_ReadBlocks_run [of h buff count w sector]
    cmds_SD_ReadBlocks_early [of h buff count w sector]
  by (simp add: new_commands_append)

lemma new_commands_SD_WriteBlocks:
  "new_commands w (world_after (SD_WriteBlocks (Some h) buff sector count w))
     = (if passes_guards h buff count w
        then write_command_list (counted_write h count) buff sector count (snd (SD_Lock h w))
        else [])"
  using cmds_SD_WriteBlocks_run [of h buff count w sector]
    cmds_SD_WriteBlocks_early [of h buff count w sector]
  by (simp add: new_commands_append)

lemma take1_read_command_list:
  "take 1 (read_command_list h buff sector count w)
     = [(if count = 1 then CMD17 else SD_CMD18, block_address h sector, 0xFF)]"
  using read_attempts_bounds(1) [of h buff "block_address h sector" w]
  by (cases "read_attempts h buff (block_address h sector) w")
     (simp_all add: read_command_list_def)

lemma take1_write_command_list:
  "take 1 (write_command_list h buff sector count w)
     = [(if count = 1 then CMD24 else SD_CMD25, block_address h sector, 0xFF)]"
  using write_attempts_bounds(1) [of h buff "block_address h sector" w]
  by (cases "write_attempts h buff (block_address h sector) w")
     (simp_all add: write_command_list_def)

lemma unat_block_address:
  "unat (block_address h sector) = (if is_sdhc h then unat sector else unat sector * 512 mod 2 ^ 32)"
  by (simp add: block_address_def SD_BLOCK_SIZE_def unat_word_ariths)


lemma cmds_multi_uninitialized:
  "\<not> initialized h \<Longrightarrow> cmds (snd (snd (SD_ReadMultiBlocksInternal h buff sector count w))) = cmds w"
  "\<not> initialized h \<Longrightarrow> cmds (snd (snd (SD_WriteMultiBlocksInternal h buff sector count w))) = cmds w"
  by (simp_all add: SD_ReadMultiBlocksInternal_def SD_WriteMultiBlocksInternal_def)

lemma initialized_counted [simp]:
  "initialized (counted_read h count) = initialized h"
  "initialized (counted_write h count) = initialized h"
  by (simp_all add: counted_read_def counted_write_def)

lemma new_commands_SD_ReadMultiBlocks:
  "new_commands w (world_after (SD_ReadMultiBlocks (Some h) buff sector count w))
     = (if passes_guards h buff count w
        then multi_read_command_list (counted_read h count) sector (snd (SD_Lock h w))
        else [])"
proof -
  consider "buff = NULL \<or> count = 0"
    | "buff \<noteq> NULL" "count \<noteq> 0" "\<not> SD_IsCardPresent (Some h) w"
    | "buff \<noteq> NULL" "count \<noteq> 0" "SD_IsCardPresent (Some h) w" "fst (SD_Lock h w) \<noteq> SD_OK"
    | "buff \<noteq> NULL" "count \<noteq> 0" "SD_IsCardPresent (Some h) w" "fst (SD_Lock h w) = SD_OK"
      "\<not> initialized h"
    | "buff \<noteq> NULL" "count \<noteq> 0" "SD_IsCardPresent (Some h) w" "fst (SD_Lock h w) = SD_OK"
      "initialized h"
    by blast
  then show ?thesis
  proof cases
    case 1
    then show ?thesis
      by (intro new_commands_append) (auto simp: SD_ReadMultiBlocks_param passes_guards_def)
  next
    case 2
    then show ?thesis
      by (intro new_commands_append) (simp add: SD_ReadMultiBlocks_no_media passes_guards_def)
  next
    case 3
    then show ?thesis
      by (intro new_commands_append) (simp add: SD_ReadMultiBlocks_lock_failed passes_guards_def)
  next
    case 4
    then show ?thesis
      by (intro new_commands_append)
         (simp add: SD_ReadMultiBlocks_run passes_guards_def cmds_multi_uninitialized)
  next
    case 5
    then show ?thesis
      by (intro new_commands_append)
         (simp add: SD_ReadMultiBlocks_run passes_guards_def cmds_SD_ReadMultiBlocksInternal
            multi_read_command_list_def)
  qed
qed

lemma new_commands_SD_WriteMultiBlocks:
  "new_commands w (world_after (SD_WriteMultiBlocks (Some h) buff sector count w))
     = (if passes_guards h buff count w then [(SD_CMD25, block_address h sector, 0xFF)] else [])"
proof -
  consider "buff = NULL \<or> count = 0"
    | "buff \<noteq> NULL" "count \<noteq> 0" "\<not> SD_IsCardPresent (Some h) w"
    | "buff \<noteq> NULL" "count \<noteq> 0" "SD_IsCardPresent (Some h) w" "fst (SD_Lock h w) \<noteq> SD_OK"
    | "buff \<noteq> NULL" "count \<noteq> 0" "SD_IsCardPresent (Some h) w" "fst (SD_Lock h w) = SD_OK"
      "\<not> initialized h"
    | "buff \<noteq> NULL" "count \<noteq> 0" "SD_IsCardPresent (Some h) w" "fst (SD_Lock h w) = SD_OK"
      "initialized h"
    by blast
  then show ?thesis
  proof cases
    case 1
    then show ?thesis
      by (intro new_commands_append) (auto simp: SD_WriteMultiBlocks_param passes_guards_def)
  next
    case 2
    then show ?thesis
      by (intro new_commands_append) (simp add: SD_WriteMultiBlocks_no_media passes_guards_def)
  next
    case 3
    then show ?thesis
      by (intro new_commands_append) (simp add: SD_WriteMultiBlocks_lock_failed passes_guards_def)
  next
    case 4
    then show ?thesis
      by (intro new_commands_append)
         (simp add: SD_WriteMultiBlocks_run passes_guards_def cmds_multi_uninitialized)
  next
    case 5
    then show ?thesis
      by (intro new_commands_append)
         (simp add: SD_WriteMultiBlocks_run passes_guards_def cmds_SD_WriteMultiBlocksInternal)
  qed
qed

lemma addressed_multi_read_command_list:
  "addressed_at (block_address h sector) (multi_read_command_list h sector w)"
  by (simp add: addressed_at_def multi_read_command_list_def is_block_command_def
      SD_CMD12_def CMD17_def SD_CMD18_def CMD24_def SD_CMD25_def)

lemma addressed_nil [simp]: "addressed_at a []"
  by (simp add: addressed_at_def)

section \<open>Bytes on the bus\<close>

lemma advance_advance [simp]:
  "advance e2 n2 t2 (advance e1 n1 t1 w) = advance (e1 @ e2) (n1 + n2) (t1 + t2) w"
  by (simp add: advance_def add.assoc)

lemma advance_fields [simp]:
  "tick (advance evs n t w) = tick w + t"
  "spi_pos (advance evs n t w) = spi_pos w + n"
  "trace (advance evs n t w) = trace w @ evs"
  "spi (advance evs n t w) = spi w"
  by (simp_all add: advance_def)

lemma spi_succeeds_advance [simp]: "spi_succeeds (advance evs n t w) = spi_succeeds w"
  by (simp add: spi_succeeds_def)

lemma incoming_advance [simp]: "incoming (advance evs n t w) j = incoming w (n + j)"
  by (simp add: incoming_def add.assoc)

lemma HAL_GetTick_advance [simp]:
  "HAL_GetTick (advance evs n t w) = HAL_GetTick w + of_nat t"
  by (simp add: HAL_GetTick_def)

lemma emit_advance: "emit e w = advance [e] 0 0 w"
  by (simp add: emit_def advance_def)

lemma SD_BackoffDelay_advance: "SD_BackoffDelay w = advance [Delay_1ms] 0 1 w"
  by (simp add: SD_BackoffDelay_def emit_def advance_def)

lemma SD_ReceiveByteTimeout_ok:
  "spi_succeeds w \<Longrightarrow>
   SD_ReceiveByteTimeout h d t w = (SD_OK, incoming w 0, advance [SPI_RxByte] 1 0 w)"
  by (simp add: SD_ReceiveByteTimeout_def next_spi_def emit_def advance_def spi_succeeds_def
      incoming_def SD_FromHalStatus_def)

lemma SD_ReceiveByte_ok:
  "spi_succeeds w \<Longrightarrow>
   SD_ReceiveByte h d w = (SD_OK, incoming w 0, advance [SPI_RxByte] 1 0 w)"
  by (simp add: SD_ReceiveByte_def SD_ReceiveByteTimeout_ok)

lemma SD_TransmitByte_ok:
  "spi_succeeds w \<Longrightarrow> SD_TransmitByte h b w = (SD_OK, advance [SPI_TxByte b] 1 0 w)"
  by (simp add: SD_TransmitByte_def SD_SPI_Transmit_def tx_event_def next_spi_def emit_def
      advance_def spi_succeeds_def SD_FromHalStatus_def)

lemma transmit_seq_ok:
  "spi_succeeds w \<Longrightarrow>
   transmit_seq h bs w = (True, advance (map SPI_TxByte bs) (length bs) 0 w)"
proof (induction bs arbitrary: w)
  case Nil
  show ?case by (simp add: advance_def)
next
  case (Cons b bs)
  then show ?case by (simp add: SD_TransmitByte_ok)
qed

lemma first_index_shift:
  "first_index P n (Suc j) = map_option Suc (first_index (\<lambda>k. P (Suc k)) n j)"
  by (induction n arbitrary: j) simp_all

lemma first_index_offset:
  "first_index P n (j + d) = map_option (\<lambda>k. k + d) (first_index (\<lambda>k. P (k + d)) n j)"
proof (induction n arbitrary: j)
  case 0
  show ?case by simp
next
  case (Suc n)
  from Suc.IH [of "Suc j"] show ?case by simp
qed

lemma polls_Suc: "polls (Suc j) = SPI_RxByte # Delay_1ms # polls j"
  by (simp add: polls_def)

lemma polls_allowed_next:
  assumes "now + 1 < timeout"
  shows "polls_allowed timeout now = Suc (polls_allowed timeout (now + 1))"
proof -
  have "unat timeout < 2 ^ 32"
    using unsigned_less [of timeout, where 'a = nat] by simp
  with assms have "unat (now + 1) + unat (1 :: 32 word) < 2 ^ LENGTH(32)"
    by (simp add: word_less_nat_alt)
  then have "unat (now + 1 + 1) = unat (now + 1) + unat (1 :: 32 word)"
    by (simp only: unat_add_lem)
  with assms show ?thesis
    by (auto simp: polls_allowed_def word_less_nat_alt)
qed

lemma wait_spec_found:
  "incoming w 0 = e \<Longrightarrow> wait_spec e (Suc n) w = (SD_OK, advance [SPI_RxByte] 1 0 w)"
  by (simp add: wait_spec_def polls_def)

lemma wait_spec_next:
  "incoming w 0 \<noteq> e \<Longrightarrow>
   wait_spec e (Suc n) w = wait_spec e n (advance [SPI_RxByte, Delay_1ms] 1 1 w)"
  by (simp add: wait_spec_def first_index_shift polls_Suc split: option.split)

lemma wait_loop_spec:
  "spi_succeeds w \<Longrightarrow>
   wait_loop e h timeout io w = wait_spec e (polls_allowed timeout (HAL_GetTick w)) w"
proof (induction e h timeout io w rule: wait_loop.induct)
  case (1 expected h timeout io_timeout w)
  note ok = "1.prems"
  let ?w2 = "advance [SPI_RxByte, Delay_1ms] 1 1 w"
  have r: "SD_ReceiveByteTimeout h 0x00 io_timeout w
             = (SD_OK, incoming w 0, advance [SPI_RxByte] 1 0 w)"
    by (rule SD_ReceiveByteTimeout_ok [OF ok])
  show ?case
  proof (cases "incoming w 0 = expected")
    case True
    with r show ?thesis
      by (subst wait_loop.simps) (simp add: polls_allowed_def wait_spec_found)
  next
    case False
    show ?thesis
    proof (cases "HAL_GetTick w + 1 < timeout")
      case True
      have ih: "wait_loop expected h timeout io_timeout ?w2
                  = wait_spec expected (polls_allowed timeout (HAL_GetTick w + 1)) ?w2"
        using "1.IH" [OF r [symmetric] refl _ _ refl] False True ok
        by (simp add: SD_BackoffDelay_advance)
      have e1: "wait_loop expected h timeout io_timeout w
              = wait_loop expected h timeout io_timeout ?w2"
        using r False True
        by (subst wait_loop.simps) (simp add: SD_BackoffDelay_advance)
      have e3: "wait_spec expected (polls_allowed timeout (HAL_GetTick w)) w
              = wait_spec expected (polls_allowed timeout (HAL_GetTick w + 1)) ?w2"
        by (simp only: polls_allowed_next [OF True] wait_spec_next [OF False])
      show ?thesis
        by (simp only: e1 ih e3)
    next
      case nt: False
      have "wait_loop expected h timeout io_timeout w = (SD_TIMEOUT, ?w2)"
        using r False nt
        by (subst wait_loop.simps) (simp add: SD_BackoffDelay_advance)
      moreover have "wait_spec expected (Suc 0) w = (SD_TIMEOUT, ?w2)"
        using False by (simp add: wait_spec_def polls_def)
      ultimately show ?thesis
        using nt by (simp add: polls_allowed_def)
    qed
  qed
qed

lemma SD_WaitReady_spec:
  "spi_succeeds w \<Longrightarrow> SD_WaitReady h timeout_ms w = wait_spec 0xFF (ready_polls timeout_ms w) w"
  by (simp add: SD_WaitReady_def wait_loop_spec ready_polls_def)

lemma poll_spec_Suc:
  "poll_spec (Suc n) response w
     = (if incoming w 0 AND 0x80 = 0 then (SD_OK, incoming w 0, advance [SPI_RxByte] 1 0 w)
        else poll_spec n response (advance [SPI_RxByte] 1 0 w))"
  by (simp add: poll_spec_def first_index_shift replicate_append_same [symmetric]
      split: option.split del: replicate.simps)
     (simp add: replicate_append_same)

lemma r1_poll_spec:
  "spi_succeeds w \<Longrightarrow> r1_poll h retry resp response w = poll_spec (10 - retry) response w"
proof (induction h retry resp response w rule: r1_poll.induct)
  case (1 h retry resp response w)
  note ok = "1.prems"
  have r: "SD_ReceiveByte h resp w = (SD_OK, incoming w 0, advance [SPI_RxByte] 1 0 w)"
    by (rule SD_ReceiveByte_ok [OF ok])
  show ?case
  proof (cases "retry < 10")
    case True
    then have m: "10 - retry = Suc (10 - (retry + 1))"
      by simp
    show ?thesis
    proof (cases "incoming w 0 AND 0x80 = 0")
      case z: True
      with True r show ?thesis
        by (subst r1_poll.simps) (simp only: m poll_spec_Suc, simp)
    next
      case nz: False
      have "r1_poll h (retry + 1) (incoming w 0) response (advance [SPI_RxByte] 1 0 w)
              = poll_spec (10 - (retry + 1)) response (advance [SPI_RxByte] 1 0 w)"
        using "1.IH" [OF True r [symmetric] refl _ nz] ok by simp
      with True r nz show ?thesis
        by (subst r1_poll.simps) (simp only: m poll_spec_Suc, simp)
    qed
  next
    case False
    then show ?thesis
      by (subst r1_poll.simps) (simp add: poll_spec_def advance_def)
  qed
qed

lemma poll_spec_offset:
  "poll_spec 10 response (advance evs (j + 8) t w)
     = (case first_index (\<lambda>k. incoming w k AND 0x80 = 0) 10 (j + 8) of
          None \<Rightarrow> (SD_TIMEOUT, response, advance (evs @ replicate 10 SPI_RxByte) (j + 18) t w)
        | Some k \<Rightarrow>
            (SD_OK, incoming w k, advance (evs @ replicate (k - (j + 7)) SPI_RxByte) (Suc k) t w))"
proof -
  have a: "first_index (\<lambda>k. incoming w k AND 0x80 = 0) 10 (j + 8)
             = map_option (\<lambda>k. k + (j + 8))
                 (first_index (\<lambda>k. incoming w (k + (j + 8)) AND 0x80 = 0) 10 0)"
    using first_index_offset [of "\<lambda>k. incoming w k AND 0x80 = 0" 10 0 "j + 8"] by simp
  have b: "(\<lambda>k. incoming (advance evs (j + 8) t w) k AND 0x80 = 0)
             = (\<lambda>k. incoming w (k + (j + 8)) AND 0x80 = 0)"
    by (simp add: add.commute)
  have c: "incoming (advance evs (j + 8) t w) k = incoming w (k + (j + 8))" for k
    by (simp add: add.commute)
  have d: "k + (j + 8) - (j + 7) = Suc k" "Suc (k + (j + 8)) = j + 8 + Suc k" for k
    by simp_all
  show ?thesis
    unfolding poll_spec_def a b c
    by (cases "first_index (\<lambda>k. incoming w (k + (j + 8)) AND 0x80 = 0) 10 0")
       (simp_all only: option.simps d advance_advance add_0_right, simp_all add: add.assoc)
qed

lemma SD_SendCommand_spec:
  assumes "spi_succeeds w"
  shows "SD_SendCommand h cmd arg crc response w = send_command_spec cmd arg crc response w"
proof -
  let ?w0 = "advance [Command cmd arg crc] 0 0 w"
  let ?n = "ready_polls SD_CMD_TIMEOUT_MS w"
  have ok: "spi_succeeds ?w0"
    using assms by simp
  have n: "ready_polls SD_CMD_TIMEOUT_MS ?w0 = ?n"
    by (simp add: ready_polls_def)
  have wr: "SD_WaitReady h SD_CMD_TIMEOUT_MS ?w0 = wait_spec 0xFF ?n ?w0"
    by (simp only: SD_WaitReady_spec [OF ok] n)
  have l: "length (0xFF # command_frame cmd arg crc) = 7"
    by (simp add: command_frame_def)
  show ?thesis
  proof (cases "first_index (\<lambda>j. incoming w j = 0xFF) ?n 0")
    case None
    then show ?thesis
      unfolding SD_SendCommand_def emit_advance wr send_command_spec_def
      by (simp add: wait_spec_def)
  next
    case (Some j)
    let ?w1 = "advance (Command cmd arg crc # polls j @ [SPI_RxByte]) (Suc j) j w"
    let ?w2 = "advance (packet cmd arg crc j) (j + 8) j w"
    have w1: "wait_spec 0xFF ?n ?w0 = (SD_OK, ?w1)"
      using Some by (simp add: wait_spec_def)
    have ok1: "spi_succeeds ?w1"
      using assms by simp
    have ts: "transmit_seq h (0xFF # command_frame cmd arg crc) ?w1 = (True, ?w2)"
      unfolding transmit_seq_ok [OF ok1] l by (simp add: add.commute packet_def)
    have ok2: "spi_succeeds ?w2"
      using assms by simp
    have "SD_SendCommand h cmd arg crc response w = poll_spec 10 response ?w2"
      unfolding SD_SendCommand_def emit_advance wr w1
      by (simp only: prod.case ts r1_poll_spec [OF ok2]) simp
    also have "\<dots> = send_command_spec cmd arg crc response w"
      unfolding poll_spec_offset send_command_spec_def Some
      by (simp split: option.split)
    finally show ?thesis .
  qed
qed

lemma ready_polls_no_wrap:
  assumes "0 < timeout_ms" "unat (HAL_GetTick w) + timeout_ms < 2 ^ 32"
  shows "ready_polls timeout_ms w = timeout_ms"
proof -
  let ?g = "HAL_GetTick w"
  have t: "unat (of_nat timeout_ms :: 32 word) = timeout_ms"
    using assms(2) by (simp add: unat_of_nat)
  have "unat ?g + unat (of_nat timeout_ms :: 32 word) < 2 ^ LENGTH(32)"
    using assms(2) t by simp
  then have "unat (?g + of_nat timeout_ms) = unat ?g + unat (of_nat timeout_ms :: 32 word)"
    by (simp only: unat_add_lem)
  then have a: "unat (?g + of_nat timeout_ms) = unat ?g + timeout_ms"
    by (simp only: t)
  have "unat ?g + unat (1 :: 32 word) < 2 ^ LENGTH(32)"
    using assms by simp
  then have b: "unat (?g + 1) = unat ?g + 1"
    by (simp only: unat_add_lem) simp
  show ?thesis
    using assms(1) by (auto simp: ready_polls_def polls_allowed_def word_less_nat_alt a b)
qed


lemma grows_refl [simp]: "grows w w"
  by (simp add: grows_def)

lemma grows_trans: "grows w w1 \<Longrightarrow> grows w1 w2 \<Longrightarrow> grows w w2"
  by (auto simp: grows_def)


lemma after_emit: "grows w v \<Longrightarrow> grows w (emit e v)"
  by (auto simp: grows_def emit_def)

lemma after_next_spi: "grows w v \<Longrightarrow> grows w (snd (next_spi v))"
  by (auto simp: grows_def next_spi_def)

lemma after_advance: "grows w v \<Longrightarrow> grows w (advance evs n t v)"
  by (auto simp: grows_def)

lemma after_SD_SPI_Transmit: "grows w v \<Longrightarrow> grows w (snd (snd (SD_SPI_Transmit h b n d v)))"
  by (auto simp: SD_SPI_Transmit_def Let_def case_prod_beta split: dma_irq.split
      intro!: after_emit after_next_spi)

lemma after_SD_SPI_TransmitReceive:
  "grows w v \<Longrightarrow> grows w (snd (snd (snd (SD_SPI_TransmitReceive h b n d v))))"
  by (auto simp: SD_SPI_TransmitReceive_def Let_def case_prod_beta split: dma_irq.split
      intro!: after_emit after_next_spi)

lemma after_SD_TransmitByte: "grows w v \<Longrightarrow> grows w (snd (SD_TransmitByte h b v))"
  by (simp add: SD_TransmitByte_def case_prod_beta after_SD_SPI_Transmit)

lemma after_SD_ReceiveByteTimeout:
  "grows w v \<Longrightarrow> grows w (snd (snd (SD_ReceiveByteTimeout h d t v)))"
  by (auto simp: SD_ReceiveByteTimeout_def Let_def case_prod_beta
      intro!: after_emit after_next_spi)

lemma after_SD_ReceiveByte: "grows w v \<Longrightarrow> grows w (snd (snd (SD_ReceiveByte h d v)))"
  by (simp add: SD_ReceiveByte_def after_SD_ReceiveByteTimeout)

lemma after_select:
  "grows w v \<Longrightarrow> grows w (SD_Select h v)"
  "grows w v \<Longrightarrow> grows w (SD_Deselect h v)"
  "grows w v \<Longrightarrow> grows w (deselect_and_clock h v)"
  "grows w v \<Longrightarrow> grows w (SD_BackoffDelay v)"
  "grows w v \<Longrightarrow> grows w (SD_Unlock h v)"
  "grows w v \<Longrightarrow> grows w (snd (SD_Lock h v))"
  by (auto simp: SD_Select_def SD_Deselect_def deselect_and_clock_def SD_BackoffDelay_def
      SD_Unlock_def SD_Lock_def intro!: after_emit after_SD_TransmitByte)
     (auto simp: grows_def)

lemma after_wait_loop: "grows w v \<Longrightarrow> grows w (snd (wait_loop e h t io v))"
proof (induction e h t io v rule: wait_loop.induct)
  case (1 expected h timeout io_timeout v)
  let ?r = "SD_ReceiveByteTimeout h 0 io_timeout v"
  have a: "grows w (snd (snd ?r))"
    by (rule after_SD_ReceiveByteTimeout [OF "1.prems"])
  have b: "grows w (SD_BackoffDelay (snd (snd ?r)))"
    by (rule after_select(4) [OF a])
  show ?case
  proof (cases "fst ?r = SD_OK \<and> fst (snd ?r) \<noteq> expected
                \<and> HAL_GetTick (SD_BackoffDelay (snd (snd ?r))) < timeout")
    case True
    then show ?thesis
      using "1.IH" [OF prod.collapse prod.collapse _ _ refl _ b]
      by (subst wait_loop.simps) (simp add: case_prod_beta Let_def)
  next
    case False
    then show ?thesis
      using a b by (subst wait_loop.simps) (auto simp: case_prod_beta Let_def)
  qed
qed

lemma after_SD_WaitReady:
  "grows w v \<Longrightarrow> grows w (snd (SD_WaitReady h t v))"
  "grows w v \<Longrightarrow> grows w (snd (SD_WaitDataToken h t v))"
  by (simp_all add: SD_WaitReady_def SD_WaitDataToken_def after_wait_loop)

lemma after_transmit_seq: "grows w v \<Longrightarrow> grows w (snd (transmit_seq h bs v))"
proof (induction bs arbitrary: v)
  case Nil
  then show ?case by simp
next
  case (Cons b bs)
  from Cons.IH [OF after_SD_TransmitByte [OF Cons.prems]] after_SD_TransmitByte [OF Cons.prems]
  show ?case by (simp add: case_prod_beta)
qed

lemma after_r1_poll: "grows w v \<Longrightarrow> grows w (snd (snd (r1_poll h n resp response v)))"
proof (induction h n resp response v rule: r1_poll.induct)
  case (1 h retry resp response v)
  let ?r = "SD_ReceiveByte h resp v"
  have a: "grows w (snd (snd ?r))"
    by (rule after_SD_ReceiveByte [OF "1.prems"])
  show ?case
  proof (cases "retry < 10 \<and> fst ?r = SD_OK \<and> fst (snd ?r) AND 0x80 \<noteq> 0")
    case True
    then show ?thesis
      using "1.IH" [OF _ prod.collapse prod.collapse _ _ a]
      by (subst r1_poll.simps) (simp add: case_prod_beta)
  next
    case False
    then show ?thesis
      using a "1.prems" by (subst r1_poll.simps) (auto simp: case_prod_beta)
  qed
qed

lemma after_SD_SendCommand:
  assumes "grows w v"
  shows "grows w (snd (snd (SD_SendCommand h c a crc r v)))"
proof -
  let ?w1 = "snd (SD_WaitReady h SD_CMD_TIMEOUT_MS (emit (Command c a crc) v))"
  let ?w2 = "snd (transmit_seq h (0xFF # command_frame c a crc) ?w1)"
  have a: "grows w ?w1"
    by (intro after_SD_WaitReady after_emit assms)
  have b: "grows w ?w2"
    by (rule after_transmit_seq [OF a])
  have c: "grows w (snd (snd (r1_poll h 0 0xFF r ?w2)))"
    by (rule after_r1_poll [OF b])
  show ?thesis
    unfolding SD_SendCommand_def using a b c
    by (simp add: case_prod_beta del: transmit_seq.simps)
qed

lemmas after_transfers =
  after_emit after_SD_SPI_Transmit after_SD_SPI_TransmitReceive after_SD_TransmitByte
  after_SD_ReceiveByte after_select after_SD_WaitReady

lemmas after_primitives = after_transfers after_SD_SendCommand

lemma after_SD_ReadSingleBlockInternal:
  "grows w v \<Longrightarrow> grows w (snd (snd (SD_ReadSingleBlockInternal h buff address v)))"
  by (auto simp: SD_ReadSingleBlockInternal_def case_prod_beta intro!: after_primitives)

lemma after_SD_WriteSingleBlockInternal:
  "grows w v \<Longrightarrow> grows w (snd (snd (SD_WriteSingleBlockInternal h buff address v)))"
  by (auto simp: SD_WriteSingleBlockInternal_def case_prod_beta Let_def intro!: after_primitives)

lemma after_read_block_step:
  "grows w v \<Longrightarrow> grows w (snd (snd (read_block_step h buff dma v)))"
  by (auto simp: read_block_step_def case_prod_beta intro!: after_primitives)

lemma after_write_block_step:
  "grows w v \<Longrightarrow> grows w (snd (snd (snd (write_block_step h buff dma r v))))"
  by (auto simp: write_block_step_def case_prod_beta Let_def intro!: after_primitives)

lemma after_read_blocks_loop:
  "grows w v \<Longrightarrow> grows w (snd (snd (read_blocks_loop h i count buff dma st v)))"
proof (induction h i count buff dma st v rule: read_blocks_loop.induct)
  case (1 h i count buff dma status v)
  have a: "grows w (snd (snd (read_block_step h buff dma v)))"
    by (rule after_read_block_step [OF "1.prems"])
  show ?case
  proof (cases "i < count \<and> fst (read_block_step h buff dma v) = SD_OK")
    case True
    then show ?thesis
      using "1.IH" [OF _ prod.collapse prod.collapse _ a]
      by (subst read_blocks_loop.simps) (simp add: case_prod_beta)
  next
    case False
    then show ?thesis
      using a "1.prems" by (subst read_blocks_loop.simps) (auto simp: case_prod_beta)
  qed
qed

lemma after_write_blocks_loop:
  "grows w v \<Longrightarrow> grows w (snd (snd (write_blocks_loop h i count buff dma st r v)))"
proof (induction h i count buff dma st r v rule: write_blocks_loop.induct)
  case (1 h i count buff dma status response v)
  have a: "grows w (snd (snd (snd (write_block_step h buff dma response v))))"
    by (rule after_write_block_step [OF "1.prems"])
  show ?case
  proof (cases "i < count \<and> fst (write_block_step h buff dma response v) = SD_OK")
    case True
    then show ?thesis
      using "1.IH" [OF _ prod.collapse prod.collapse prod.collapse _ a]
      by (subst write_blocks_loop.simps) (simp add: case_prod_beta)
  next
    case False
    then show ?thesis
      using a "1.prems" by (subst write_blocks_loop.simps) (auto simp: case_prod_beta)
  qed
qed

lemma after_attempts:
  assumes "\<And>h v. grows w v \<Longrightarrow> grows w (snd (snd (transfer h v)))"
  shows "grows w v \<Longrightarrow> grows w (snd (snd (attempts n transfer h st v)))"
proof (induction n arbitrary: h st v)
  case 0
  then show ?case by simp
next
  case (Suc n)
  have a: "grows w (snd (snd (transfer h v)))"
    by (rule assms [OF Suc.prems])
  from Suc.IH [OF after_select(4) [OF a]] a show ?case
    by (simp add: case_prod_beta)
qed

lemma after_finish: "grows w (snd (snd r)) \<Longrightarrow> grows w (world_after (finish r))"
  by (simp add: finish_def world_after_def return_recorded_def case_prod_beta after_select)


lemma frame_bytes:
  "map unat (command_frame cmd arg crc)
     = [unat (0x40 OR cmd), unat arg div 2 ^ 24, unat arg div 2 ^ 16 mod 256,
        unat arg div 2 ^ 8 mod 256, unat arg mod 256, unat crc]"
proof -
  have a: "unat (ucast (drop_bit n arg) :: 8 word) = unat arg div 2 ^ n mod 256" for n
    by (simp add: unsigned_ucast_eq unat_drop_bit_eq take_bit_eq_mod [where 'a = nat]
        drop_bit_eq_div [where 'a = nat])
  have "unat arg < 2 ^ 32"
    using unsigned_less [of arg, where 'a = nat] by simp
  then have b: "unat arg div 2 ^ 24 mod 256 = unat arg div 2 ^ 24"
    by simp
  show ?thesis
    using a [of 24] a [of 16] a [of 8] a [of 0] b by (simp add: command_frame_def)
qed

lemma trace_beginsI:
  "trace v = trace w @ evs @ rest \<Longrightarrow> grows v w' \<Longrightarrow> trace_begins w evs w'"
  by (auto simp: trace_begins_def grows_def)

lemma SD_Lock_ok: "fst (SD_Lock h w) = SD_OK \<Longrightarrow> snd (SD_Lock h w) = advance [Mutex_Take] 0 0 w"
  by (simp add: SD_Lock_def emit_advance split: if_splits)

lemma SD_Select_advance:
  "SD_Select h w = advance [CS_Write (cs_port h) (cs_pin h) GPIO_PIN_RESET] 0 0 w"
  by (simp add: SD_Select_def emit_advance)

lemma ready_polls_advance [simp]: "ready_polls t (advance evs n 0 w) = ready_polls t w"
  by (simp add: ready_polls_def)

lemma send_command_packet:
  assumes "spi_succeeds v"
    and "first_index (\<lambda>j. incoming v j = 0xFF) (ready_polls SD_CMD_TIMEOUT_MS v) 0 = Some j"
  shows "\<exists>rest. trace (snd (snd (SD_SendCommand h c a crc r v))) = trace v @ packet c a crc j @ rest"
  unfolding SD_SendCommand_spec [OF assms(1)] send_command_spec_def assms(2)
  by (simp split: option.split)


lemma begins_with_command:
  assumes "fst (SD_Lock h w) = SD_OK" "spi_succeeds w"
    and "first_index (\<lambda>j. incoming w j = 0xFF) (ready_polls SD_CMD_TIMEOUT_MS w) 0 = Some j"
    and "grows (snd (snd (SD_SendCommand h' c a 0xFF r (SD_Select h' (snd (SD_Lock h w)))))) w'"
    and "cs_port h' = cs_port h" "cs_pin h' = cs_pin h"
  shows "trace_begins w (first_command h c a j) w'"
proof -
  let ?v = "advance [Mutex_Take, CS_Write (cs_port h) (cs_pin h) GPIO_PIN_RESET] 0 0 w"
  have v: "SD_Select h' (snd (SD_Lock h w)) = ?v"
    by (simp add: SD_Lock_ok [OF assms(1)] SD_Select_advance assms(5,6))
  have ok: "spi_succeeds ?v"
    using assms(2) by simp
  have r: "first_index (\<lambda>j. incoming ?v j = 0xFF) (ready_polls SD_CMD_TIMEOUT_MS ?v) 0 = Some j"
    using assms(3) by simp
  obtain rest where
    "trace (snd (snd (SD_SendCommand h' c a 0xFF r ?v))) = trace ?v @ packet c a 0xFF j @ rest"
    using send_command_packet [OF ok r] by blast
  then have "trace (snd (snd (SD_SendCommand h' c a 0xFF r ?v)))
               = trace w @ first_command h c a j @ rest"
    by (simp add: first_command_def)
  then show ?thesis
    using assms(4) unfolding v by (rule trace_beginsI)
qed

lemma single_read_from_command:
  "grows (snd (snd (SD_SendCommand h CMD17 a 0xFF 0xFF (SD_Select h w))))
     (snd (snd (SD_ReadSingleBlockInternal h buff a w)))"
  by (auto simp: SD_ReadSingleBlockInternal_def case_prod_beta intro!: after_transfers)

lemma single_write_from_command:
  "grows (snd (snd (SD_SendCommand h CMD24 a 0xFF 0xFF (SD_Select h w))))
     (snd (snd (SD_WriteSingleBlockInternal h buff a w)))"
  by (auto simp: SD_WriteSingleBlockInternal_def case_prod_beta Let_def intro!: after_transfers)

lemma multi_read_from_command:
  assumes "buff \<noteq> NULL" "count \<noteq> 0" "initialized h"
  shows "grows (snd (snd (SD_SendCommand h SD_CMD18 (block_address h sector) 0xFF 0xFF
                            (SD_Select h w))))
           (snd (snd (SD_ReadMultiBlocksInternal h buff sector count w)))"
  using assms
  by (auto simp: SD_ReadMultiBlocksInternal_def block_address_def case_prod_beta Let_def
      intro!: after_transfers after_read_blocks_loop after_SD_SendCommand [where c = SD_CMD12])

lemma multi_write_from_command:
  assumes "buff \<noteq> NULL" "count \<noteq> 0" "initialized h"
  shows "grows (snd (snd (SD_SendCommand h SD_CMD25 (block_address h sector) 0xFF 0xFF
                            (SD_Select h w))))
           (snd (snd (SD_WriteMultiBlocksInternal h buff sector count w)))"
  using assms
  by (auto simp: SD_WriteMultiBlocksInternal_def block_address_def case_prod_beta Let_def
      intro!: after_transfers after_write_blocks_loop)

lemma attempts_from_first:
  assumes "\<And>h v u. grows u v \<Longrightarrow> grows u (snd (snd (transfer h v)))"
  shows "grows (snd (snd (transfer h v))) (snd (snd (attempts (Suc n) transfer h st v)))"
  using after_attempts [of "snd (snd (transfer h v))" transfer
      "SD_BackoffDelay (snd (snd (transfer h v)))" n "fst (snd (transfer h v))"
      "fst (transfer h v)", OF assms after_select(4) [OF grows_refl]]
  by (simp add: case_prod_beta)

lemma counted_pins [simp]:
  "cs_port (counted_read h count) = cs_port h" "cs_pin (counted_read h count) = cs_pin h"
  "cs_port (counted_write h count) = cs_port h" "cs_pin (counted_write h count) = cs_pin h"
  by (simp_all add: counted_read_def counted_write_def)

lemma read_blocks_from_command:
  assumes "passes_guards h buff count w"
  shows "grows (snd (snd (SD_SendCommand (counted_read h count)
                            (if count = 1 then CMD17 else SD_CMD18) (block_address h sector)
                            0xFF 0xFF (SD_Select (counted_read h count) (snd (SD_Lock h w))))))
           (world_after (SD_ReadBlocks (Some h) buff sector count w))"
proof (cases "count = 1")
  case True
  let ?T = "\<lambda>h' w'. SD_ReadSingleBlockInternal h' buff (block_address h sector) w'"
  have "grows (snd (snd (?T (counted_read h count) (snd (SD_Lock h w)))))
          (snd (snd (attempts (Suc SD_MAX_RETRIES) ?T (counted_read h count) SD_OK
                       (snd (SD_Lock h w)))))"
    by (rule attempts_from_first) (rule after_SD_ReadSingleBlockInternal)
  then have "grows (snd (snd (SD_SendCommand (counted_read h count) CMD17
                                (block_address h sector) 0xFF 0xFF
                                (SD_Select (counted_read h count) (snd (SD_Lock h w))))))
               (snd (snd (attempts (Suc SD_MAX_RETRIES) ?T (counted_read h count) SD_OK
                            (snd (SD_Lock h w)))))"
    by (rule grows_trans [OF single_read_from_command])
  moreover have "SD_ReadBlocks (Some h) buff sector count w
      = finish (attempts (Suc SD_MAX_RETRIES) ?T (counted_read h count) SD_OK (snd (SD_Lock h w)))"
    using True SD_ReadBlocks_run [OF assms, of sector]
      read_retry_loop_attempts [of 0 "counted_read h count" buff "block_address h sector" SD_OK
        "snd (SD_Lock h w)"]
    by (simp del: attempts.simps)
  ultimately show ?thesis
    using True by (simp add: after_finish del: attempts.simps)
next
  case False
  have "grows (snd (snd (SD_SendCommand (counted_read h count) SD_CMD18
                           (block_address (counted_read h count) sector) 0xFF 0xFF
                           (SD_Select (counted_read h count) (snd (SD_Lock h w))))))
          (snd (snd (SD_ReadMultiBlocksInternal (counted_read h count) buff sector count
                       (snd (SD_Lock h w)))))"
    using passes_guards_counted [OF assms] by (intro multi_read_from_command) simp_all
  then show ?thesis
    using False by (simp only: SD_ReadBlocks_run [OF assms] if_False) (simp add: after_finish)
qed

lemma write_blocks_from_command:
  assumes "passes_guards h buff count w"
  shows "grows (snd (snd (SD_SendCommand (counted_write h count)
                            (if count = 1 then CMD24 else SD_CMD25) (block_address h sector)
                            0xFF 0xFF (SD_Select (counted_write h count) (snd (SD_Lock h w))))))
           (world_after (SD_WriteBlocks (Some h) buff sector count w))"
proof (cases "count = 1")
  case True
  let ?T = "\<lambda>h' w'. SD_WriteSingleBlockInternal h' buff (block_address h sector) w'"
  have "grows (snd (snd (?T (counted_write h count) (snd (SD_Lock h w)))))
          (snd (snd (attempts (Suc SD_MAX_RETRIES) ?T (counted_write h count) SD_OK
                       (snd (SD_Lock h w)))))"
    by (rule attempts_from_first) (rule after_SD_WriteSingleBlockInternal)
  then have "grows (snd (snd (SD_SendCommand (counted_write h count) CMD24
                                (block_address h sector) 0xFF 0xFF
                                (SD_Select (counted_write h count) (snd (SD_Lock h w))))))
               (snd (snd (attempts (Suc SD_MAX_RETRIES) ?T (counted_write h count) SD_OK
                            (snd (SD_Lock h w)))))"
    by (rule grows_trans [OF single_write_from_command])
  moreover have "SD_WriteBlocks (Some h) buff sector count w
      = finish (attempts (Suc SD_MAX_RETRIES) ?T (counted_write h count) SD_OK (snd (SD_Lock h w)))"
    using True SD_WriteBlocks_run [OF assms, of sector]
      write_retry_loop_attempts [of 0 "counted_write h count" buff "block_address h sector" SD_OK
        "snd (SD_Lock h w)"]
    by (simp del: attempts.simps)
  ultimately show ?thesis
    using True by (simp add: after_finish del: attempts.simps)
next
  case False
  have "grows (snd (snd (SD_SendCommand (counted_write h count) SD_CMD25
                           (block_address (counted_write h count) sector) 0xFF 0xFF
                           (SD_Select (counted_write h count) (snd (SD_Lock h w))))))
          (snd (snd (SD_WriteMultiBlocksInternal (counted_write h count) buff sector count
                       (snd (SD_Lock h w)))))"
    using passes_guards_counted [OF assms] by (intro multi_write_from_command) simp_all
  then show ?thesis
    using False by (simp only: SD_WriteBlocks_run [OF assms] if_False) (simp add: after_finish)
qed

lemma multi_blocks_from_command:
  assumes "passes_guards h buff count w"
  shows "grows (snd (snd (SD_SendCommand (counted_read h count) SD_CMD18 (block_address h sector)
                            0xFF 0xFF (SD_Select (counted_read h count) (snd (SD_Lock h w))))))
           (world_after (SD_ReadMultiBlocks (Some h) buff sector count w))"
    and "grows (snd (snd (SD_SendCommand (counted_write h count) SD_CMD25
                            (block_address h sector) 0xFF 0xFF
                            (SD_Select (counted_write h count) (snd (SD_Lock h w))))))
           (world_after (SD_WriteMultiBlocks (Some h) buff sector count w))"
proof -
  have g: "buff \<noteq> NULL" "count \<noteq> 0" "SD_IsCardPresent (Some h) w" "fst (SD_Lock h w) = SD_OK"
    using assms by (simp_all add: passes_guards_def)
  have r: "grows (snd (snd (SD_SendCommand (counted_read h count) SD_CMD18
                           (block_address (counted_read h count) sector) 0xFF 0xFF
                           (SD_Select (counted_read h count) (snd (SD_Lock h w))))))
          (snd (snd (SD_ReadMultiBlocksInternal (counted_read h count) buff sector count
                       (snd (SD_Lock h w)))))"
    using passes_guards_counted [OF assms] by (intro multi_read_from_command) simp_all
  show "grows (snd (snd (SD_SendCommand (counted_read h count) SD_CMD18 (block_address h sector)
                            0xFF 0xFF (SD_Select (counted_read h count) (snd (SD_Lock h w))))))
           (world_after (SD_ReadMultiBlocks (Some h) buff sector count w))"
    using r by (simp only: SD_ReadMultiBlocks_run [OF g]) (simp add: after_finish)
  have t: "grows (snd (snd (SD_SendCommand (counted_write h count) SD_CMD25
                           (block_address (counted_write h count) sector) 0xFF 0xFF
                           (SD_Select (counted_write h count) (snd (SD_Lock h w))))))
          (snd (snd (SD_WriteMultiBlocksInternal (counted_write h count) buff sector count
                       (snd (SD_Lock h w)))))"
    using passes_guards_counted [OF assms] by (intro multi_write_from_command) simp_all
  show "grows (snd (snd (SD_SendCommand (counted_write h count) SD_CMD25
                            (block_address h sector) 0xFF 0xFF
                            (SD_Select (counted_write h count) (snd (SD_Lock h w))))))
           (world_after (SD_WriteMultiBlocks (Some h) buff sector count w))"
    using t by (simp only: SD_WriteMultiBlocks_run [OF g]) (simp add: after_finish)
qed


lemma trace_begins_take:
  "trace_begins w evs w' \<Longrightarrow> trace w = [] \<Longrightarrow> length evs = n \<Longrightarrow> take n (trace w') = evs"
  by (auto simp: trace_begins_def)

lemma spi_succeeds_card [simp]: "spi_succeeds (card bytes)"
  by (simp add: spi_succeeds_def card_def idle_result_def)

lemma wire_examples:
  "new_commands read_ok_card
     (world_after (SD_ReadBlocks (Some ready_handle) 0x20001000 100 1 read_ok_card))
     = [(CMD17, 51200, 0xFF)]"
  "new_commands read_ok_card
     (world_after (SD_ReadMultiBlocks (Some sdhc_handle) 0x20001000 100 2 read_ok_card))
     = [(SD_CMD18, 100, 0xFF), (SD_CMD12, 0, 0xFF)]"
  "new_commands read_ok_card
     (world_after (SD_WriteBlocks (Some sdhc_handle) 0x20001000 100 2 read_ok_card))
     = [(SD_CMD25, 100, 0xFF)]"
  "first_index (\<lambda>i. incoming read_ok_card i = 0xFF) (ready_polls SD_CMD_TIMEOUT_MS read_ok_card) 0
     = Some 0"
  "first_command ready_handle CMD17 51200 0
     = [Mutex_Take, CS_Write 0x40020000 0x0010 GPIO_PIN_RESET, Command CMD17 51200 0xFF,
        SPI_RxByte, SPI_TxByte 0xFF, SPI_TxByte 0x51, SPI_TxByte 0x00, SPI_TxByte 0x00,
        SPI_TxByte 0xC8, SPI_TxByte 0x00, SPI_TxByte 0xFF]"
  "first_command sdhc_handle SD_CMD25 100 0
     = [Mutex_Take, CS_Write 0x40020000 0x0010 GPIO_PIN_RESET, Command SD_CMD25 100 0xFF,
        SPI_RxByte, SPI_TxByte 0xFF, SPI_TxByte 0x59, SPI_TxByte 0x00, SPI_TxByte 0x00,
        SPI_TxByte 0x00, SPI_TxByte 0x64, SPI_TxByte 0xFF]"
  "trace read_ok_card = []"
  by code_simp+

text \<open>
  C4. In every read or write, through the single entry points or the multi-block ones,
  each call of \<^verbatim>\<open>SD_SendCommand\<close> for CMD17, CMD18, CMD24 or CMD25 is made with the
  argument \<open>block_address h sector\<close>: \<open>sector\<close> for a sector-addressed card, \<open>sector * 512\<close>
  modulo \<open>2^32\<close> otherwise, and once the call has passed its checks that block command is
  the first one. On the bus: when the SPI transfers succeed and the card answers \<^verbatim>\<open>0xFF\<close>
  at poll \<open>j\<close> of the wait for ready, the operation takes the mutex, selects the card,
  polls \<open>j + 1\<close> times and then transmits \<^verbatim>\<open>0xFF\<close> and the six bytes of the command: the
  index with bit 6 set, the four bytes of \<open>block_address h sector\<close> from the most
  significant one, and the CRC byte \<^verbatim>\<open>0xFF\<close>. \<open>send_command_spec\<close> gives the same for every
  call of \<^verbatim>\<open>SD_SendCommand\<close>, so for the later attempts of a single-block transfer as well.
\<close>

theorem block_address_on_the_wire:
  "addressed_at (block_address h sector)
     (new_commands w (world_after (SD_ReadBlocks (Some h) buff sector count w)))
   \<and> addressed_at (block_address h sector)
     (new_commands w (world_after (SD_WriteBlocks (Some h) buff sector count w)))
   \<and> addressed_at (block_address h sector)
     (new_commands w (world_after (SD_ReadMultiBlocks (Some h) buff sector count w)))
   \<and> addressed_at (block_address h sector)
     (new_commands w (world_after (SD_WriteMultiBlocks (Some h) buff sector count w)))
   \<and> (passes_guards h buff count w \<longrightarrow>
        take 1 (new_commands w (world_after (SD_ReadBlocks (Some h) buff sector count w)))
          = [(if count = 1 then CMD17 else SD_CMD18, block_address h sector, 0xFF)]
        \<and> take 1 (new_commands w (world_after (SD_WriteBlocks (Some h) buff sector count w)))
          = [(if count = 1 then CMD24 else SD_CMD25, block_address h sector, 0xFF)]
        \<and> take 1 (new_commands w (world_after (SD_ReadMultiBlocks (Some h) buff sector count w)))
          = [(SD_CMD18, block_address h sector, 0xFF)]
        \<and> take 1 (new_commands w (world_after (SD_WriteMultiBlocks (Some h) buff sector count w)))
          = [(SD_CMD25, block_address h sector, 0xFF)])
   \<and> (passes_guards h buff count w \<and> spi_succeeds w
        \<and> first_index (\<lambda>i. incoming w i = 0xFF) (ready_polls SD_CMD_TIMEOUT_MS w) 0 = Some j \<longrightarrow>
        trace_begins w
          (first_command h (if count = 1 then CMD17 else SD_CMD18) (block_address h sector) j)
          (world_after (SD_ReadBlocks (Some h) buff sector count w))
        \<and> trace_begins w
          (first_command h (if count = 1 then CMD24 else SD_CMD25) (block_address h sector) j)
          (world_after (SD_WriteBlocks (Some h) buff sector count w))
        \<and> trace_begins w (first_command h SD_CMD18 (block_address h sector) j)
          (world_after (SD_ReadMultiBlocks (Some h) buff sector count w))
        \<and> trace_begins w (first_command h SD_CMD25 (block_address h sector) j)
          (world_after (SD_WriteMultiBlocks (Some h) buff sector count w)))
   \<and> (spi_succeeds v \<longrightarrow>
        SD_SendCommand g cmd (block_address h sector) crc r v
          = send_command_spec cmd (block_address h sector) crc r v)
   \<and> map unat (command_frame cmd (block_address h sector) crc)
        = [unat (0x40 OR cmd), unat (block_address h sector) div 2 ^ 24,
           unat (block_address h sector) div 2 ^ 16 mod 256,
           unat (block_address h sector) div 2 ^ 8 mod 256,
           unat (block_address h sector) mod 256, unat crc]
   \<and> unat (block_address h sector)
        = (if is_sdhc h then unat sector else unat sector * 512 mod 2 ^ 32)"
proof -
  have a: "addressed_at (block_address h sector)
      (read_command_list (counted_read h count) buff sector count (snd (SD_Lock h w)))"
    "addressed_at (block_address h sector)
      (write_command_list (counted_write h count) buff sector count (snd (SD_Lock h w)))"
    "addressed_at (block_address h sector)
      (multi_read_command_list (counted_read h count) sector (snd (SD_Lock h w)))"
    using addressed_read_command_list [of "counted_read h count" sector]
      addressed_write_command_list [of "counted_write h count" sector]
      addressed_multi_read_command_list [of "counted_read h count" sector]
    by simp_all
  have s: "addressed_at (block_address h sector) [(SD_CMD25, block_address h sector, 0xFF)]"
    by (simp add: addressed_at_def)
  have t: "take 1 (read_command_list (counted_read h count) buff sector count (snd (SD_Lock h w)))
        = [(if count = 1 then CMD17 else SD_CMD18, block_address h sector, 0xFF)]"
    "take 1 (write_command_list (counted_write h count) buff sector count (snd (SD_Lock h w)))
        = [(if count = 1 then CMD24 else SD_CMD25, block_address h sector, 0xFF)]"
    "take 1 (multi_read_command_list (counted_read h count) sector (snd (SD_Lock h w)))
        = [(SD_CMD18, block_address h sector, 0xFF)]"
    by (simp_all only: take1_read_command_list take1_write_command_list block_address_counted)
       (simp add: multi_read_command_list_def)
  have u: "take 1 [(SD_CMD25, block_address h sector, 0xFF :: 8 word)]
      = [(SD_CMD25, block_address h sector, 0xFF)]"
    by simp
  have c: "addressed_at (block_address h sector)
       (new_commands w (world_after (SD_ReadBlocks (Some h) buff sector count w)))
     \<and> addressed_at (block_address h sector)
       (new_commands w (world_after (SD_WriteBlocks (Some h) buff sector count w)))
     \<and> addressed_at (block_address h sector)
       (new_commands w (world_after (SD_ReadMultiBlocks (Some h) buff sector count w)))
     \<and> addressed_at (block_address h sector)
       (new_commands w (world_after (SD_WriteMultiBlocks (Some h) buff sector count w)))
     \<and> (passes_guards h buff count w \<longrightarrow>
          take 1 (new_commands w (world_after (SD_ReadBlocks (Some h) buff sector count w)))
            = [(if count = 1 then CMD17 else SD_CMD18, block_address h sector, 0xFF)]
          \<and> take 1 (new_commands w (world_after (SD_WriteBlocks (Some h) buff sector count w)))
            = [(if count = 1 then CMD24 else SD_CMD25, block_address h sector, 0xFF)]
          \<and> take 1 (new_commands w (world_after (SD_ReadMultiBlocks (Some h) buff sector count w)))
            = [(SD_CMD18, block_address h sector, 0xFF)]
          \<and> take 1 (new_commands w (world_after (SD_WriteMultiBlocks (Some h) buff sector count w)))
            = [(SD_CMD25, block_address h sector, 0xFF)])"
  proof (cases "passes_guards h buff count w")
    case True
    show ?thesis
      by (simp only: new_commands_SD_ReadBlocks new_commands_SD_WriteBlocks
          new_commands_SD_ReadMultiBlocks new_commands_SD_WriteMultiBlocks
          True if_True a s t u simp_thms)
  next
    case False
    show ?thesis
      by (simp only: new_commands_SD_ReadBlocks new_commands_SD_WriteBlocks
          new_commands_SD_ReadMultiBlocks new_commands_SD_WriteMultiBlocks
          False if_False addressed_nil simp_thms)
  qed
  have b: "passes_guards h buff count w \<and> spi_succeeds w
        \<and> first_index (\<lambda>i. incoming w i = 0xFF) (ready_polls SD_CMD_TIMEOUT_MS w) 0 = Some j \<longrightarrow>
        trace_begins w
          (first_command h (if count = 1 then CMD17 else SD_CMD18) (block_address h sector) j)
          (world_after (SD_ReadBlocks (Some h) buff sector count w))
        \<and> trace_begins w
          (first_command h (if count = 1 then CMD24 else SD_CMD25) (block_address h sector) j)
          (world_after (SD_WriteBlocks (Some h) buff sector count w))
        \<and> trace_begins w (first_command h SD_CMD18 (block_address h sector) j)
          (world_after (SD_ReadMultiBlocks (Some h) buff sector count w))
        \<and> trace_begins w (first_command h SD_CMD25 (block_address h sector) j)
          (world_after (SD_WriteMultiBlocks (Some h) buff sector count w))"
  proof (intro impI, elim conjE, intro conjI)
    assume g: "passes_guards h buff count w" and ok: "spi_succeeds w"
      and rd: "first_index (\<lambda>i. incoming w i = 0xFF) (ready_polls SD_CMD_TIMEOUT_MS w) 0 = Some j"
    have l: "fst (SD_Lock h w) = SD_OK"
      using g by (simp add: passes_guards_def)
    show "trace_begins w
          (first_command h (if count = 1 then CMD17 else SD_CMD18) (block_address h sector) j)
          (world_after (SD_ReadBlocks (Some h) buff sector count w))"
      by (rule begins_with_command [OF l ok rd read_blocks_from_command [OF g]]) simp_all
    show "trace_begins w
          (first_command h (if count = 1 then CMD24 else SD_CMD25) (block_address h sector) j)
          (world_after (SD_WriteBlocks (Some h) buff sector count w))"
      by (rule begins_with_command [OF l ok rd write_blocks_from_command [OF g]]) simp_all
    show "trace_begins w (first_command h SD_CMD18 (block_address h sector) j)
          (world_after (SD_ReadMultiBlocks (Some h) buff sector count w))"
      by (rule begins_with_command [OF l ok rd multi_blocks_from_command(1) [OF g]]) simp_all
    show "trace_begins w (first_command h SD_CMD25 (block_address h sector) j)
          (world_after (SD_WriteMultiBlocks (Some h) buff sector count w))"
      by (rule begins_with_command [OF l ok rd multi_blocks_from_command(2) [OF g]]) simp_all
  qed
  have d: "spi_succeeds v \<longrightarrow>
        SD_SendCommand g cmd (block_address h sector) crc r v
          = send_command_spec cmd (block_address h sector) crc r v"
    by (simp add: SD_SendCommand_spec)
  show ?thesis
    by (intro conjI)
       (rule c [THEN conjunct1], rule c [THEN conjunct2, THEN conjunct1],
        rule c [THEN conjunct2, THEN conjunct2, THEN conjunct1],
        rule c [THEN conjunct2, THEN conjunct2, THEN conjunct2, THEN conjunct1],
        rule c [THEN conjunct2, THEN conjunct2, THEN conjunct2, THEN conjunct2],
        rule b, rule d, rule frame_bytes, rule unat_block_address)
qed

theorem block_address_on_the_wire_witness:
  "passes_guards ready_handle 0x20001000 1 read_ok_card
   \<and> new_commands read_ok_card
        (world_after (SD_ReadBlocks (Some ready_handle) 0x20001000 100 1 read_ok_card))
        = [(CMD17, 51200, 0xFF)]
   \<and> addressed_at 51200 [(CMD17, 51200, 0xFF)]
   \<and> unat (block_address ready_handle 100) = 51200
   \<and> passes_guards sdhc_handle 0x20001000 2 read_ok_card
   \<and> take 1 (new_commands read_ok_card
        (world_after (SD_ReadMultiBlocks (Some sdhc_handle) 0x20001000 100 2 read_ok_card)))
        = [(SD_CMD18, 100, 0xFF)]
   \<and> take 1 (new_commands read_ok_card
        (world_after (SD_WriteBlocks (Some sdhc_handle) 0x20001000 100 2 read_ok_card)))
        = [(SD_CMD25, 100, 0xFF)]
   \<and> unat (block_address sdhc_handle 100) = 100
   \<and> unat (block_address ready_handle 0x00800001) = 512
   \<and> spi_succeeds read_ok_card
   \<and> first_index (\<lambda>i. incoming read_ok_card i = 0xFF)
        (ready_polls SD_CMD_TIMEOUT_MS read_ok_card) 0 = Some 0
   \<and> take 11 (trace (world_after (SD_ReadBlocks (Some ready_handle) 0x20001000 100 1
                                     read_ok_card)))
        = [Mutex_Take, CS_Write 0x40020000 0x0010 GPIO_PIN_RESET, Command CMD17 51200 0xFF,
           SPI_RxByte, SPI_TxByte 0xFF, SPI_TxByte 0x51, SPI_TxByte 0x00, SPI_TxByte 0x00,
           SPI_TxByte 0xC8, SPI_TxByte 0x00, SPI_TxByte 0xFF]
   \<and> take 11 (trace (world_after (SD_WriteBlocks (Some sdhc_handle) 0x20001000 100 2
                                     read_ok_card)))
        = [Mutex_Take, CS_Write 0x40020000 0x0010 GPIO_PIN_RESET, Command SD_CMD25 100 0xFF,
           SPI_RxByte, SPI_TxByte 0xFF, SPI_TxByte 0x59, SPI_TxByte 0x00, SPI_TxByte 0x00,
           SPI_TxByte 0x00, SPI_TxByte 0x64, SPI_TxByte 0xFF]
   \<and> map unat (command_frame CMD17 51200 0xFF) = [unat (0x40 OR CMD17), 0, 0, 200, 0, 255]"
proof -
  have g: "passes_guards ready_handle 0x20001000 1 read_ok_card"
    "passes_guards sdhc_handle 0x20001000 2 read_ok_card"
    by (simp_all add: passes_guards_def sdhc_handle_def ready_handle_def zero_handle_def
        read_ok_card_def card_def SD_IsCardPresent_def SD_Lock_def NULL_def)
  have b: "block_address ready_handle 100 = 51200" "block_address sdhc_handle 100 = 100"
    by (simp_all add: block_address_def sdhc_handle_def ready_handle_def zero_handle_def
        SD_BLOCK_SIZE_def)
  have i: "\<not> is_sdhc ready_handle" "is_sdhc sdhc_handle"
    by (simp_all add: sdhc_handle_def ready_handle_def zero_handle_def)
  have ok: "spi_succeeds read_ok_card"
    by (simp add: read_ok_card_def)
  note one = block_address_on_the_wire [where h = ready_handle and sector = 100
      and w = read_ok_card and buff = "0x20001000" and count = 1 and j = 0 and cmd = CMD17
      and crc = "0xFF"]
  note two = block_address_on_the_wire [where h = sdhc_handle and sector = 100
      and w = read_ok_card and buff = "0x20001000" and count = 2 and j = 0]
  note three = block_address_on_the_wire [where h = ready_handle and sector = "0x00800001"
      and w = read_ok_card and buff = "0x20001000" and count = 1]
  have c1: "new_commands read_ok_card
        (world_after (SD_ReadBlocks (Some ready_handle) 0x20001000 100 1 read_ok_card))
        = [(CMD17, 51200, 0xFF)] \<and> addressed_at 51200 [(CMD17, 51200, 0xFF)]"
    using one [THEN conjunct1] by (simp add: b wire_examples)
  have c2: "take 1 (new_commands read_ok_card
        (world_after (SD_ReadMultiBlocks (Some sdhc_handle) 0x20001000 100 2 read_ok_card)))
        = [(SD_CMD18, 100, 0xFF)]
      \<and> take 1 (new_commands read_ok_card
        (world_after (SD_WriteBlocks (Some sdhc_handle) 0x20001000 100 2 read_ok_card)))
        = [(SD_CMD25, 100, 0xFF)]"
    using two [THEN conjunct2, THEN conjunct2, THEN conjunct2, THEN conjunct2, THEN conjunct1]
    by (simp add: g b)
  have c3: "unat (block_address ready_handle 100) = 51200"
    "unat (block_address sdhc_handle 100) = 100"
    "unat (block_address ready_handle 0x00800001) = 512"
    using one [THEN conjunct2, THEN conjunct2, THEN conjunct2, THEN conjunct2, THEN conjunct2,
        THEN conjunct2, THEN conjunct2, THEN conjunct2]
      two [THEN conjunct2, THEN conjunct2, THEN conjunct2, THEN conjunct2, THEN conjunct2,
        THEN conjunct2, THEN conjunct2, THEN conjunct2]
      three [THEN conjunct2, THEN conjunct2, THEN conjunct2, THEN conjunct2, THEN conjunct2,
        THEN conjunct2, THEN conjunct2, THEN conjunct2]
    by (simp_all add: i)
  have t1: "trace_begins read_ok_card (first_command ready_handle CMD17 51200 0)
              (world_after (SD_ReadBlocks (Some ready_handle) 0x20001000 100 1 read_ok_card))"
    using one [THEN conjunct2, THEN conjunct2, THEN conjunct2, THEN conjunct2, THEN conjunct2,
        THEN conjunct1]
    by (simp add: g ok b wire_examples(4))
  have "take 11 (trace (world_after (SD_ReadBlocks (Some ready_handle) 0x20001000 100 1
                                       read_ok_card)))
          = first_command ready_handle CMD17 51200 0"
    by (rule trace_begins_take [OF t1]) (simp_all add: wire_examples(5,7))
  then have c4: "take 11 (trace (world_after (SD_ReadBlocks (Some ready_handle) 0x20001000 100 1
                                     read_ok_card)))
        = [Mutex_Take, CS_Write 0x40020000 0x0010 GPIO_PIN_RESET, Command CMD17 51200 0xFF,
           SPI_RxByte, SPI_TxByte 0xFF, SPI_TxByte 0x51, SPI_TxByte 0x00, SPI_TxByte 0x00,
           SPI_TxByte 0xC8, SPI_TxByte 0x00, SPI_TxByte 0xFF]"
    by (simp only: wire_examples(5))
  have t2: "trace_begins read_ok_card (first_command sdhc_handle SD_CMD25 100 0)
              (world_after (SD_WriteBlocks (Some sdhc_handle) 0x20001000 100 2 read_ok_card))"
    using two [THEN conjunct2, THEN conjunct2, THEN conjunct2, THEN conjunct2, THEN conjunct2,
        THEN conjunct1]
    by (simp add: g ok b wire_examples(4))
  have "take 11 (trace (world_after (SD_WriteBlocks (Some sdhc_handle) 0x20001000 100 2
                                       read_ok_card)))
          = first_command sdhc_handle SD_CMD25 100 0"
    by (rule trace_begins_take [OF t2]) (simp_all add: wire_examples(6,7))
  then have c5: "take 11 (trace (world_after (SD_WriteBlocks (Some sdhc_handle) 0x20001000 100 2
                                     read_ok_card)))
        = [Mutex_Take, CS_Write 0x40020000 0x0010 GPIO_PIN_RESET, Command SD_CMD25 100 0xFF,
           SPI_RxByte, SPI_TxByte 0xFF, SPI_TxByte 0x59, SPI_TxByte 0x00, SPI_TxByte 0x00,
           SPI_TxByte 0x00, SPI_TxByte 0x64, SPI_TxByte 0xFF]"
    by (simp only: wire_examples(6))
  have c6: "map unat (command_frame CMD17 51200 0xFF) = [unat (0x40 OR CMD17), 0, 0, 200, 0, 255]"
    using one [THEN conjunct2, THEN conjunct2, THEN conjunct2, THEN conjunct2, THEN conjunct2,
        THEN conjunct2, THEN conjunct2, THEN conjunct1]
    by (simp add: b)
  show ?thesis
    by (simp only: g c1 c2 c3 c4 c5 c6 ok wire_examples(4) simp_thms)
qed

section \<open>The retry policy\<close>

lemma trace_SD_TransmitByte [simp]:
  "trace (snd (SD_TransmitByte h b w)) = trace w @ [SPI_TxByte b]"
  by (simp add: SD_TransmitByte_def SD_SPI_Transmit_def tx_event_def emit_def next_spi_def
      case_prod_beta)

lemma trace_deselect_and_clock [simp]:
  "trace (deselect_and_clock h w)
     = trace w @ [CS_Write (cs_port h) (cs_pin h) GPIO_PIN_SET, SPI_TxByte 0xFF]"
  by (simp add: SD_Deselect_def deselect_and_clock_def emit_def)





lemma frame_write_multi_loop: "frame (fst (snd (write_multi_loop h buff sector count w))) = frame h"
  by (simp add: write_multi_loop_def Let_def)


lemma trace_begins_grows:
  assumes "trace_begins w evs w1" "grows w1 w2"
  shows "trace_begins w evs w2"
proof -
  from assms(1) have a: "take (length (trace w) + length evs) (trace w1) = trace w @ evs"
    by (simp add: trace_begins_def)
  have "length (take (length (trace w) + length evs) (trace w1)) = length (trace w) + length evs"
    by (simp only: a) simp
  then have "length (trace w) + length evs \<le> length (trace w1)"
    by simp
  with a assms(2) show ?thesis
    by (auto simp: trace_begins_def grows_def)
qed











lemma counted_mutex [simp]:
  "mutex (counted_read h count) = mutex h" "mutex (counted_write h count) = mutex h"
  by (simp_all add: counted_read_def counted_write_def)










end
